theory Spec2Isabelle
  imports Complex_Main "HOL-Library.Sublist"
begin

section \<open>Python values\<close>

text \<open>
  The scenario generator handles JSON text and the dictionaries decoded from it. A decoded
  value is a \<open>json\<close>; a Python \<open>dict\<close> with string keys is an association list read
  with \<open>map_of\<close>. A character is a Unicode code point below 256, so a string is a
  Python \<^verbatim>\<open>str\<close> made of such code points, and the character classes and case maps
  below are Python's on that range. Every \<open>raise\<close> of the source is a value \<open>Inl e\<close>
  of a sum type.
\<close>

datatype json =
    JNull
  | JBool bool
  | JNum int
  | JStr string
  | JArr "json list"
  | JObj "(string \<times> json) list"

type_synonym pydict = "(string \<times> json) list"

datatype exn =
    AttributeError
  | TypeError
  | JSONDecodeError
  | OtherError

text \<open>\<^verbatim>\<open>d.get(k, default)\<close>\<close>

definition dict_get :: "pydict \<Rightarrow> string \<Rightarrow> json \<Rightarrow> json" where
  "dict_get d k dflt = (case map_of d k of None \<Rightarrow> dflt | Some v \<Rightarrow> v)"

section \<open>Strings\<close>

text \<open>
  \<^verbatim>\<open>str.isspace\<close>, which is the whitespace of \<^verbatim>\<open>str.strip\<close> and \<^verbatim>\<open>str.split\<close>
  and the class \<^verbatim>\<open>\s\<close> of \<^verbatim>\<open>re\<close> on \<^verbatim>\<open>str\<close>: tab, line feed, vertical tab,
  form feed, carriage return, the four separators 0x1C to 0x1F, the space, the next-line
  control 0x85 and the no-break space 0xA0.
\<close>

definition isspace :: "char \<Rightarrow> bool" where
  "isspace c = (c \<in> set [CHR 0x09, CHR 0x0A, CHR 0x0B, CHR 0x0C, CHR 0x0D,
                           CHR 0x1C, CHR 0x1D, CHR 0x1E, CHR 0x1F, CHR 0x20,
                           CHR 0x85, CHR 0xA0])"

text \<open>
  The class \<^verbatim>\<open>\d\<close> of \<^verbatim>\<open>re\<close> on \<^verbatim>\<open>str\<close> is the ten decimal digits;
  \<^verbatim>\<open>str.isdigit\<close> also holds of the superscripts two, three and one (0xB2, 0xB3, 0xB9).
\<close>

definition is_decimal :: "char \<Rightarrow> bool" where
  "is_decimal c = (c \<in> set ''0123456789'')"

definition isdigit :: "char \<Rightarrow> bool" where
  "isdigit c = (is_decimal c \<or> c \<in> set [CHR 0xB2, CHR 0xB3, CHR 0xB9])"

text \<open>
  The letters with a case below 256: the 26 of ASCII, and the 30 accented capitals 0xC0
  to 0xDE (without the multiplication sign 0xD7) with their small forms 0xE0 to 0xFE
  (without the division sign 0xF7).
\<close>

definition upper_chars :: string where
  "upper_chars = ''ABCDEFGHIJKLMNOPQRSTUVWXYZ''"

definition lower_chars :: string where
  "lower_chars = ''abcdefghijklmnopqrstuvwxyz''"

definition latin_upper_chars :: string where
  "latin_upper_chars =
     [CHR 0xC0, CHR 0xC1, CHR 0xC2, CHR 0xC3, CHR 0xC4, CHR 0xC5, CHR 0xC6, CHR 0xC7,
      CHR 0xC8, CHR 0xC9, CHR 0xCA, CHR 0xCB, CHR 0xCC, CHR 0xCD, CHR 0xCE, CHR 0xCF,
      CHR 0xD0, CHR 0xD1, CHR 0xD2, CHR 0xD3, CHR 0xD4, CHR 0xD5, CHR 0xD6,
      CHR 0xD8, CHR 0xD9, CHR 0xDA, CHR 0xDB, CHR 0xDC, CHR 0xDD, CHR 0xDE]"

definition latin_lower_chars :: string where
  "latin_lower_chars =
     [CHR 0xE0, CHR 0xE1, CHR 0xE2, CHR 0xE3, CHR 0xE4, CHR 0xE5, CHR 0xE6, CHR 0xE7,
      CHR 0xE8, CHR 0xE9, CHR 0xEA, CHR 0xEB, CHR 0xEC, CHR 0xED, CHR 0xEE, CHR 0xEF,
      CHR 0xF0, CHR 0xF1, CHR 0xF2, CHR 0xF3, CHR 0xF4, CHR 0xF5, CHR 0xF6,
      CHR 0xF8, CHR 0xF9, CHR 0xFA, CHR 0xFB, CHR 0xFC, CHR 0xFD, CHR 0xFE]"

text \<open>\<^verbatim>\<open>c.lower()\<close> of one character, which is one character on this range.\<close>

definition py_lower :: "char \<Rightarrow> char" where
  "py_lower c =
     (case map_of (zip (upper_chars @ latin_upper_chars) (lower_chars @ latin_lower_chars)) c of
        None \<Rightarrow> c
      | Some l \<Rightarrow> l)"

text \<open>
  \<^verbatim>\<open>c.upper()\<close> of one character: the sharp s 0xDF becomes \<^verbatim>\<open>SS\<close>; the micro sign
  0xB5 and the y with diaeresis 0xFF become code points above 255 (0x39C and 0x178), for
  which the result is \<open>None\<close>.
\<close>

definition py_upper :: "char \<Rightarrow> string option" where
  "py_upper c =
     (if c = CHR 0xDF then Some ''SS''
      else if c = CHR 0xB5 \<or> c = CHR 0xFF then None
      else Some [case map_of (zip (lower_chars @ latin_lower_chars)
                                  (upper_chars @ latin_upper_chars)) c of
                   None \<Rightarrow> c
                 | Some u \<Rightarrow> u])"

text \<open>\<^verbatim>\<open>s.lower()\<close>, \<^verbatim>\<open>s.strip()\<close>, \<^verbatim>\<open>s.startswith(p)\<close>, \<^verbatim>\<open>p in s\<close>\<close>

definition str_lower :: "string \<Rightarrow> string" where
  "str_lower s = map py_lower s"

definition str_strip :: "string \<Rightarrow> string" where
  "str_strip s = rev (dropWhile isspace (rev (dropWhile isspace s)))"

definition startswith :: "string \<Rightarrow> string \<Rightarrow> bool" where
  "startswith s p = prefix p s"

fun str_contains :: "string \<Rightarrow> string \<Rightarrow> bool" where
  "str_contains p [] = (p = [])"
| "str_contains p (c # cs) = (prefix p (c # cs) \<or> str_contains p cs)"

text \<open>\<^verbatim>\<open>s.split()\<close>: the maximal runs of characters that are not whitespace.\<close>

fun split_words :: "string \<Rightarrow> string \<Rightarrow> string list" where
  "split_words cur [] = (if cur = [] then [] else [rev cur])"
| "split_words cur (c # cs) =
     (if isspace c then (if cur = [] then split_words [] cs else rev cur # split_words [] cs)
      else split_words (c # cur) cs)"

definition str_split :: "string \<Rightarrow> string list" where
  "str_split s = split_words [] s"

text \<open>\<^verbatim>\<open>s.split('\n')\<close>: the pieces between line feeds, empty ones included.\<close>

fun split_lines :: "string \<Rightarrow> string \<Rightarrow> string list" where
  "split_lines cur [] = [rev cur]"
| "split_lines cur (c # cs) =
     (if c = CHR 0x0A then rev cur # split_lines [] cs else split_lines (c # cur) cs)"

text \<open>\<^verbatim>\<open>str(n)\<close> for a natural number.\<close>

definition digit_char :: "nat \<Rightarrow> char" where
  "digit_char d = ''0123456789'' ! d"

function str_of_nat :: "nat \<Rightarrow> string" where
  "str_of_nat n = (if n < 10 then [digit_char n] else str_of_nat (n div 10) @ [digit_char (n mod 10)])"
  by pat_completeness auto
termination
  by (relation "measure id") auto

text \<open>
  \<^verbatim>\<open>re.sub(r'[\*\+\-]', '', s)\<close> deletes every asterisk, plus and hyphen;
  \<^verbatim>\<open>re.sub(r'^[\d\.\s]+', '', s)\<close> deletes the leading run of digits, dots and
  whitespace (\<^verbatim>\<open>^\<close> is the start of the string: no \<^verbatim>\<open>MULTILINE\<close>).
\<close>

definition is_marker :: "char \<Rightarrow> bool" where
  "is_marker c = (c = CHR ''*'' \<or> c = CHR ''+'' \<or> c = CHR ''-'')"

definition sub_markers :: "string \<Rightarrow> string" where
  "sub_markers s = filter (\<lambda>c. \<not> is_marker c) s"

definition is_enum_char :: "char \<Rightarrow> bool" where
  "is_enum_char c = (is_decimal c \<or> c = CHR ''.'' \<or> isspace c)"

definition sub_leading_numbers :: "string \<Rightarrow> string" where
  "sub_leading_numbers s = dropWhile is_enum_char s"

section \<open>Validator: \<^verbatim>\<open>EnhancedAIClient._validate_and_clean_scenario\<close>\<close>

definition generic_titles :: "string list" where
  "generic_titles = [''test scenario'', ''scenario'', ''test case'', ''test'']"

definition action_words :: "string list" where
  "action_words = [''verify'', ''test'', ''check'', ''validate'', ''ensure'', ''confirm'']"

text \<open>
  \<^verbatim>\<open>title[0].upper() + title[1:] if title else title\<close>, \<open>None\<close> when the capital
  of the first character is above 255.
\<close>

definition capitalize_first :: "string \<Rightarrow> string option" where
  "capitalize_first title =
     (case title of
        [] \<Rightarrow> Some []
      | c # cs \<Rightarrow> (case py_upper c of None \<Rightarrow> None | Some u \<Rightarrow> Some (u @ cs)))"

text \<open>
  The loop over \<^verbatim>\<open>steps\<close>: an entry that is not a string is skipped; a string is
  cleaned, kept when more than 5 characters remain, and numbered by its position among the
  kept ones unless it begins with a digit.
\<close>

fun clean_steps :: "json list \<Rightarrow> string list \<Rightarrow> string list" where
  "clean_steps [] cleaned_steps = cleaned_steps"
| "clean_steps (JStr step # steps) cleaned_steps =
     (let clean_step = str_strip (sub_markers step);
          clean_step = str_strip (sub_leading_numbers clean_step)
      in if clean_step \<noteq> [] \<and> length clean_step > 5
         then clean_steps steps
                (cleaned_steps @
                   [if \<not> isdigit (hd clean_step)
                    then str_of_nat (length cleaned_steps + 1) @ ''. '' @ clean_step
                    else clean_step])
         else clean_steps steps cleaned_steps)"
| "clean_steps (step # steps) cleaned_steps = clean_steps steps cleaned_steps"

text \<open>
  The title after the two substitutions, each followed by \<^verbatim>\<open>.strip()\<close>; then the
  action-word test, before the title is capitalised:
  \<^verbatim>\<open>f"Verify {title.lower()}"\<close> unless it starts with an action word.
\<close>

definition strip_title_markup :: "string \<Rightarrow> string" where
  "strip_title_markup title = str_strip (sub_leading_numbers (str_strip (sub_markers title)))"

definition clean_title :: "string \<Rightarrow> string" where
  "clean_title title =
     (let title = strip_title_markup title
      in if \<not> (\<exists>word\<in>set action_words. startswith (str_lower title) word)
         then ''Verify '' @ str_lower title
         else title)"

text \<open>
  The result is \<open>Inr None\<close> for \<^verbatim>\<open>return None\<close>, \<open>Inr (Some record)\<close> for the returned
  dict, and \<open>Inl AttributeError\<close> where \<^verbatim>\<open>.strip()\<close> is called on a title or a description
  that is not a string. The title that is capitalised starts with an action word, so its
  first character is an ASCII letter and \<open>capitalize_first\<close> is never \<open>None\<close> there
  (lemma \<open>capitalize_first_clean_title\<close>).
\<close>

definition validate_and_clean_scenario :: "json \<Rightarrow> exn + pydict option" where
  "validate_and_clean_scenario scenario =
     (case scenario of
        JObj d \<Rightarrow>
          (case dict_get d ''title'' (JStr []) of
             JStr raw_title \<Rightarrow>
               (let title = str_strip raw_title
                in if title = [] \<or> length title < 10 then Inr None
                   else if str_lower title \<in> set generic_titles then Inr None
                   else
                     (let title = clean_title title;
                          title = (case capitalize_first title of
                                     None \<Rightarrow> title
                                   | Some capitalized \<Rightarrow> capitalized)
                      in case dict_get d ''description'' (JStr []) of
                           JStr raw_description \<Rightarrow>
                             (let description = str_strip raw_description;
                                  description = str_strip (sub_markers description);
                                  description =
                                    (if description = []
                                     then ''Test scenario for '' @ str_lower title
                                     else description);
                                  steps =
                                    (case dict_get d ''steps'' (JArr []) of
                                       JStr step \<Rightarrow> [JStr step]
                                     | JArr xs \<Rightarrow> xs
                                     | _ \<Rightarrow> [JStr ''1. Execute test steps'',
                                             JStr ''2. Verify expected results'']);
                                  cleaned_steps = clean_steps steps [];
                                  cleaned_steps =
                                    (if cleaned_steps = []
                                     then [''1. Set up test environment'',
                                           ''2. Execute the test scenario'',
                                           ''3. Verify expected results'']
                                     else cleaned_steps)
                              in Inr (Some
                                   [(''title'', JStr (take 100 title)),
                                    (''description'', JStr (take 200 description)),
                                    (''steps'', JArr (map JStr (take 5 cleaned_steps))),
                                    (''severity'', dict_get d ''severity'' (JStr ''S3 - Moderate'')),
                                    (''priority'', dict_get d ''priority'' (JStr ''P3 - Medium'')),
                                    (''automation'', dict_get d ''automation'' (JStr ''Manual''))]))
                         | _ \<Rightarrow> Inl AttributeError))
           | _ \<Rightarrow> Inl AttributeError)
      | _ \<Rightarrow> Inr None)"

section \<open>Text fallback: \<^verbatim>\<open>EnhancedAIClient._improved_text_to_scenarios\<close>\<close>

text \<open>
  \<^verbatim>\<open>_create_quality_scenario\<close>. Its tuple of action words has no \<^verbatim>\<open>confirm\<close>.
  Here too the title that is capitalised starts with an action word, and
  \<open>capitalize_first\<close> is never \<open>None\<close> (lemma \<open>capitalize_first_quality_title\<close>).
\<close>

definition quality_action_words :: "string list" where
  "quality_action_words = [''verify'', ''test'', ''check'', ''validate'', ''ensure'']"

definition create_quality_scenario :: "string \<Rightarrow> pydict" where
  "create_quality_scenario title =
     (let title = str_strip title;
          title = (if \<not> (\<exists>word\<in>set quality_action_words. startswith (str_lower title) word)
                   then ''Verify '' @ str_lower title
                   else title);
          title = (if title \<noteq> []
                   then (case capitalize_first title of
                           None \<Rightarrow> title
                         | Some capitalized \<Rightarrow> capitalized)
                   else ''Test scenario'')
      in [(''title'', JStr title),
          (''description'', JStr (''Test scenario to '' @ str_lower title)),
          (''steps'', JArr [JStr ''1. Navigate to the relevant page or section'',
                            JStr ''2. Execute the required test actions'',
                            JStr ''3. Verify the expected outcome occurs'',
                            JStr ''4. Document the test results'']),
          (''severity'', JStr ''S3 - Moderate''),
          (''priority'', JStr ''P3 - Medium''),
          (''automation'', JStr ''Manual'')])"

text \<open>
  The substitutions of \<^verbatim>\<open>_clean_title_from_line\<close>, in the order of the source:
  \<^verbatim>\<open>^[\d\.\s]*\<close> (the leading run of digits, dots and whitespace),
  \<^verbatim>\<open>[\*\+\-]+\<close> (every run of markers),
  \<^verbatim>\<open>^(title|scenario|test):\s*\<close> with \<^verbatim>\<open>IGNORECASE\<close> (one leading label and the
  whitespace after it),
  \<^verbatim>\<open>^["'\[\{]*\<close> (leading quotes and opening brackets) and
  \<^verbatim>\<open>["'\]\}]*$\<close> (trailing quotes and closing brackets, where \<^verbatim>\<open>$\<close> is the end of
  the string or the position before a final line feed).
\<close>

definition sub_label :: "string \<Rightarrow> string" where
  "sub_label line =
     (if startswith (str_lower line) ''title:'' then dropWhile isspace (drop 6 line)
      else if startswith (str_lower line) ''scenario:'' then dropWhile isspace (drop 9 line)
      else if startswith (str_lower line) ''test:'' then dropWhile isspace (drop 5 line)
      else line)"

definition is_open_quote :: "char \<Rightarrow> bool" where
  "is_open_quote c = (c = CHR 0x22 \<or> c = CHR 0x27 \<or> c = CHR ''['' \<or> c = CHR ''{'')"

definition is_close_quote :: "char \<Rightarrow> bool" where
  "is_close_quote c = (c = CHR 0x22 \<or> c = CHR 0x27 \<or> c = CHR '']'' \<or> c = CHR ''}'')"

definition sub_trailing_quotes :: "string \<Rightarrow> string" where
  "sub_trailing_quotes line =
     (if line \<noteq> [] \<and> last line = CHR 0x0A
      then rev (dropWhile is_close_quote (rev (butlast line))) @ [CHR 0x0A]
      else rev (dropWhile is_close_quote (rev line)))"

definition clean_title_from_line :: "string \<Rightarrow> string" where
  "clean_title_from_line line =
     (let line = sub_leading_numbers line;
          line = sub_markers line;
          line = sub_label line;
          line = dropWhile is_open_quote line;
          line = sub_trailing_quotes line
      in str_strip line)"

definition title_keywords :: "string list" where
  "title_keywords = [''test'', ''verify'', ''check'', ''validate'', ''ensure'']"

text \<open>
  The \<^verbatim>\<open>for line in lines\<close> loop, with its \<^verbatim>\<open>continue\<close>s and its \<^verbatim>\<open>break\<close> at
  eight scenarios.
\<close>

fun scan_lines :: "string list \<Rightarrow> pydict list \<Rightarrow> pydict list" where
  "scan_lines [] scenarios = scenarios"
| "scan_lines (raw_line # lines) scenarios =
     (let line = str_strip raw_line
      in if line = [] \<or> length line < 15 then scan_lines lines scenarios
         else if startswith line ''**'' \<or> startswith line ''##''
                 \<or> startswith line ''###'' \<or> startswith line ''---''
         then scan_lines lines scenarios
         else if \<exists>keyword\<in>set title_keywords. str_contains keyword (str_lower line)
         then (let cleaned_title = clean_title_from_line line
               in if cleaned_title \<noteq> [] \<and> length cleaned_title > 10
                  then (let scenarios = scenarios @ [create_quality_scenario cleaned_title]
                        in if length scenarios \<ge> 8 then scenarios
                           else scan_lines lines scenarios)
                  else scan_lines lines scenarios)
         else scan_lines lines scenarios)"

text \<open>The \<^verbatim>\<open>while len(scenarios) < 6\<close> loop.\<close>

function fill_scenarios :: "pydict list \<Rightarrow> pydict list" where
  "fill_scenarios scenarios =
     (if length scenarios < 6
      then fill_scenarios
             (scenarios @
                [create_quality_scenario
                   (''Test functionality scenario '' @ str_of_nat (length scenarios + 1))])
      else scenarios)"
  by pat_completeness auto
termination
  by (relation "measure (\<lambda>scenarios. 6 - length scenarios)") auto

definition improved_text_to_scenarios :: "string \<Rightarrow> pydict list" where
  "improved_text_to_scenarios text = fill_scenarios (scan_lines (split_lines [] text) [])"

section \<open>Parse and repair: \<^verbatim>\<open>EnhancedAIClient._improved_parse_scenarios\<close>\<close>

text \<open>
  The regular expressions of the cascade that need an engine, by name:
  \<^item> \<open>Bold_Markup\<close> \<^verbatim>\<open>\*\*([^*]+)\*\*\<close>, \<open>Italic_Markup\<close> \<^verbatim>\<open>\*([^*]+)\*\<close>,
    \<open>Bullet_Prefix\<close> \<^verbatim>\<open>^[\+\-\*]\s*\<close> and \<open>Number_Prefix\<close> \<^verbatim>\<open>^\d+\.\s*\<close> (both
    \<^verbatim>\<open>MULTILINE\<close>), \<open>Here_Are\<close> \<^verbatim>\<open>Here are the.*?scenarios.*?:\<close> and \<open>Below_Are\<close>
    \<^verbatim>\<open>Below are.*?scenarios.*?:\<close> (both \<^verbatim>\<open>IGNORECASE\<close>);
  \<^item> \<open>Json_Array\<close> \<^verbatim>\<open>\[[\s\S]*\]\<close>;
  \<^item> \<open>Adjacent_Objects\<close> \<^verbatim>\<open>}\s*{\<close>, \<open>Quote_Brace_Brace\<close> \<^verbatim>\<open>"\s*}\s*{\<close>,
    \<open>Quote_Brace_Bracket\<close> \<^verbatim>\<open>"\s*}\s*]\<close>, \<open>Bare_Key\<close> \<^verbatim>\<open>(\w+):\<close>,
    \<open>Comma_Brace\<close> \<^verbatim>\<open>,\s*}\<close>, \<open>Comma_Bracket\<close> \<^verbatim>\<open>,\s*]\<close>;
  \<^item> \<open>Title_Object\<close> \<^verbatim>\<open>\{[^{}]*"title"[^{}]*\}\<close> (\<^verbatim>\<open>DOTALL\<close>);
  \<^item> \<open>Field_String k\<close> \<^verbatim>\<open>"k"\s*:\s*"([^"]+)"\<close>, \<open>Steps_Array\<close>
    \<^verbatim>\<open>"steps"\s*:\s*\[(.*?)\]\<close> (\<^verbatim>\<open>DOTALL\<close>), \<open>Quoted\<close> \<^verbatim>\<open>"([^"]+)"\<close>.
\<close>

datatype regex =
    Bold_Markup
  | Italic_Markup
  | Bullet_Prefix
  | Number_Prefix
  | Here_Are
  | Below_Are
  | Json_Array
  | Adjacent_Objects
  | Quote_Brace_Brace
  | Quote_Brace_Bracket
  | Bare_Key
  | Comma_Brace
  | Comma_Bracket
  | Title_Object
  | Field_String string
  | Steps_Array
  | Quoted

text \<open>
  The library the cascade calls: \<^verbatim>\<open>json.loads\<close>, which returns a value or raises, and
  \<^verbatim>\<open>re.sub(pattern, repl, text)\<close>, \<^verbatim>\<open>re.search(pattern, text)\<close> (as the matched text
  \<^verbatim>\<open>.group()\<close> and as the first group \<^verbatim>\<open>.group(1)\<close>, \<open>None\<close> when nothing matches) and
  \<^verbatim>\<open>re.findall(pattern, text)\<close>, which return on every string.
\<close>

record pylib =
  json_loads :: "string \<Rightarrow> exn + json"
  re_sub :: "regex \<Rightarrow> string \<Rightarrow> string \<Rightarrow> string"
  re_search :: "regex \<Rightarrow> string \<Rightarrow> string option"
  re_search_group1 :: "regex \<Rightarrow> string \<Rightarrow> string option"
  re_findall :: "regex \<Rightarrow> string \<Rightarrow> string list"

text \<open>The replacement texts \<^verbatim>\<open>r'\1'\<close> and \<^verbatim>\<open>r'"\1":'\<close>.\<close>

definition group1_ref :: string where
  "group1_ref = [CHR 0x5C, CHR ''1'']"

definition quoted_key_ref :: string where
  "quoted_key_ref = [CHR 0x22, CHR 0x5C, CHR ''1'', CHR 0x22, CHR '':'']"

definition clean_response_text :: "pylib \<Rightarrow> string \<Rightarrow> string" where
  "clean_response_text lib text =
     (let text = re_sub lib Bold_Markup group1_ref text;
          text = re_sub lib Italic_Markup group1_ref text;
          text = re_sub lib Bullet_Prefix [] text;
          text = re_sub lib Number_Prefix [] text;
          text = re_sub lib Here_Are [] text;
          text = re_sub lib Below_Are [] text
      in str_strip text)"

definition fix_malformed_json :: "pylib \<Rightarrow> string \<Rightarrow> string option" where
  "fix_malformed_json lib json_text =
     (let json_text = re_sub lib Adjacent_Objects ''},{'' json_text;
          json_text = re_sub lib Quote_Brace_Brace (CHR 0x22 # '',},{'') json_text;
          json_text = re_sub lib Quote_Brace_Bracket (CHR 0x22 # '',}]'') json_text;
          json_text = re_sub lib Bare_Key quoted_key_ref json_text;
          json_text = re_sub lib Comma_Brace ''}'' json_text;
          json_text = re_sub lib Comma_Bracket '']'' json_text;
          json_text = (if count_list json_text CHR ''['' > count_list json_text CHR '']''
                       then json_text @ '']'' else json_text);
          json_text = (if count_list json_text CHR ''{'' > count_list json_text CHR ''}''
                       then json_text @ ''}'' else json_text)
      in Some json_text)"

text \<open>
  The loop that validates the decoded entries one by one and keeps the cleaned ones; an
  exception of the validator leaves the loop.
\<close>

fun clean_scenarios :: "json list \<Rightarrow> pydict list \<Rightarrow> exn + pydict list" where
  "clean_scenarios [] cleaned_scenarios = Inr cleaned_scenarios"
| "clean_scenarios (scenario # scenarios) cleaned_scenarios =
     (case validate_and_clean_scenario scenario of
        Inl e \<Rightarrow> Inl e
      | Inr None \<Rightarrow> clean_scenarios scenarios cleaned_scenarios
      | Inr (Some cleaned_scenario) \<Rightarrow>
          clean_scenarios scenarios (cleaned_scenarios @ [cleaned_scenario]))"

text \<open>
  \<^verbatim>\<open>_extract_scenario_from_text\<close>: the fields found by the searches, in the order the
  source stores them; \<^verbatim>\<open>except Exception: return None\<close>.
\<close>

definition string_field :: "pylib \<Rightarrow> string \<Rightarrow> string \<Rightarrow> pydict" where
  "string_field lib k text =
     (case re_search_group1 lib (Field_String k) text of
        None \<Rightarrow> []
      | Some g \<Rightarrow> [(k, JStr (str_strip g))])"

definition extract_scenario_from_text :: "pylib \<Rightarrow> string \<Rightarrow> pydict option" where
  "extract_scenario_from_text lib text =
     (let scenario =
            string_field lib ''title'' text
          @ string_field lib ''description'' text
          @ (case re_search_group1 lib Steps_Array text of
               None \<Rightarrow> []
             | Some steps_text \<Rightarrow>
                 [(''steps'', JArr (map JStr (re_findall lib Quoted steps_text)))])
          @ string_field lib ''severity'' text
          @ string_field lib ''priority'' text
          @ string_field lib ''automation'' text
      in if dict_get scenario ''title'' JNull \<notin> {JNull, JStr []}
         then (case validate_and_clean_scenario (JObj scenario) of
                 Inl e \<Rightarrow> None
               | Inr r \<Rightarrow> r)
         else None)"

text \<open>
  \<^verbatim>\<open>_extract_json_like_scenarios\<close>: the loop over the matches, then
  \<^verbatim>\<open>return scenarios if scenarios else None\<close>, and \<^verbatim>\<open>None\<close> on any exception.
\<close>

fun extract_matches :: "pylib \<Rightarrow> string list \<Rightarrow> pydict list \<Rightarrow> exn + pydict list" where
  "extract_matches lib [] scenarios = Inr scenarios"
| "extract_matches lib (m # matches) scenarios =
     (case json_loads lib m of
        Inr (JObj d) \<Rightarrow>
          (if map_of d ''title'' \<noteq> None
           then (case validate_and_clean_scenario (JObj d) of
                   Inl e \<Rightarrow> Inl e
                 | Inr None \<Rightarrow> extract_matches lib matches scenarios
                 | Inr (Some cleaned_scenario) \<Rightarrow>
                     extract_matches lib matches (scenarios @ [cleaned_scenario]))
           else extract_matches lib matches scenarios)
      | Inr _ \<Rightarrow> extract_matches lib matches scenarios
      | Inl JSONDecodeError \<Rightarrow>
          (case extract_scenario_from_text lib m of
             None \<Rightarrow> extract_matches lib matches scenarios
           | Some extracted_scenario \<Rightarrow>
               extract_matches lib matches (scenarios @ [extracted_scenario]))
      | Inl e \<Rightarrow> Inl e)"

definition extract_json_like_scenarios :: "pylib \<Rightarrow> string \<Rightarrow> pydict list option" where
  "extract_json_like_scenarios lib text =
     (case extract_matches lib (re_findall lib Title_Object text) [] of
        Inl e \<Rightarrow> None
      | Inr scenarios \<Rightarrow> (if scenarios \<noteq> [] then Some scenarios else None))"

text \<open>
  The last two stages, from \<^verbatim>\<open>extracted_scenarios = ...\<close> to the end of the
  \<^verbatim>\<open>try\<close> block: the object-by-object extraction, then the text fallback.
\<close>

definition extract_or_text :: "pylib \<Rightarrow> string \<Rightarrow> exn + pydict list" where
  "extract_or_text lib response_text =
     (case extract_json_like_scenarios lib response_text of
        Some (s # ss) \<Rightarrow> Inr (s # ss)
      | _ \<Rightarrow> Inr (improved_text_to_scenarios response_text))"

text \<open>
  The middle stages: the bracketed substring of the cleaned text is decoded; when that
  raises \<^verbatim>\<open>JSONDecodeError\<close> the repaired substring is decoded. A decoded non-empty
  list is validated and returned. Everything else goes on to the last two stages, except an
  exception that is not \<^verbatim>\<open>JSONDecodeError\<close>, which leaves the \<^verbatim>\<open>try\<close> block.
\<close>

definition bracket_stages :: "pylib \<Rightarrow> string \<Rightarrow> exn + pydict list" where
  "bracket_stages lib response_text =
     (let cleaned_text = clean_response_text lib response_text
      in case re_search lib Json_Array cleaned_text of
           None \<Rightarrow> extract_or_text lib response_text
         | Some json_match \<Rightarrow>
             (case json_loads lib json_match of
                Inr (JArr (x # xs)) \<Rightarrow> clean_scenarios (x # xs) []
              | Inr _ \<Rightarrow> extract_or_text lib response_text
              | Inl JSONDecodeError \<Rightarrow>
                  (case fix_malformed_json lib json_match of
                     None \<Rightarrow> extract_or_text lib response_text
                   | Some fixed_json \<Rightarrow>
                       (if fixed_json \<noteq> []
                        then (case json_loads lib fixed_json of
                                Inr (JArr (x # xs)) \<Rightarrow> clean_scenarios (x # xs) []
                              | Inr _ \<Rightarrow> extract_or_text lib response_text
                              | Inl JSONDecodeError \<Rightarrow> extract_or_text lib response_text
                              | Inl e \<Rightarrow> Inl e)
                        else extract_or_text lib response_text))
              | Inl e \<Rightarrow> Inl e))"

text \<open>The body of the outer \<^verbatim>\<open>try\<close>, starting with the direct decoding.\<close>

definition parse_attempt :: "pylib \<Rightarrow> string \<Rightarrow> exn + pydict list" where
  "parse_attempt lib response_text =
     (case json_loads lib response_text of
        Inr (JArr (x # xs)) \<Rightarrow> clean_scenarios (x # xs) []
      | Inr _ \<Rightarrow> bracket_stages lib response_text
      | Inl JSONDecodeError \<Rightarrow> bracket_stages lib response_text
      | Inl e \<Rightarrow> Inl e)"

text \<open>
  The whole function: \<^verbatim>\<open>except Exception\<close> around the body returns the text fallback.
\<close>

definition improved_parse_scenarios :: "pylib \<Rightarrow> string \<Rightarrow> exn + pydict list" where
  "improved_parse_scenarios lib response_text =
     (case parse_attempt lib response_text of
        Inr scenarios \<Rightarrow> Inr scenarios
      | Inl e \<Rightarrow> Inr (improved_text_to_scenarios response_text))"

section \<open>Deduplication: \<^verbatim>\<open>EnhancedAIClient._remove_duplicate_scenarios\<close>\<close>

text \<open>
  \<^verbatim>\<open>_calculate_similarity\<close>. The quotient of the two sizes is an exact real here; the
  source divides two integers in floating point and compares with the literal 0.8.
\<close>

definition calculate_similarity :: "string \<Rightarrow> string \<Rightarrow> real" where
  "calculate_similarity text1 text2 =
     (let words1 = set (str_split (str_lower text1));
          words2 = set (str_split (str_lower text2))
      in if words1 = {} \<or> words2 = {} then 0
         else (let intersection = card (words1 \<inter> words2);
                   union = card (words1 \<union> words2)
               in if union > 0 then real intersection / real union else 0))"

text \<open>
  The loop, with \<^verbatim>\<open>unique_scenarios\<close> and \<^verbatim>\<open>seen_titles\<close> as accumulators.
  \<^verbatim>\<open>scenario.get('title', '').lower()\<close> raises \<^verbatim>\<open>AttributeError\<close> on a title that is
  not a string.
\<close>

fun remove_duplicates_from ::
  "pydict list \<Rightarrow> pydict list \<Rightarrow> string set \<Rightarrow> exn + pydict list" where
  "remove_duplicates_from [] unique_scenarios seen_titles = Inr unique_scenarios"
| "remove_duplicates_from (scenario # scenarios) unique_scenarios seen_titles =
     (case dict_get scenario ''title'' (JStr []) of
        JStr t \<Rightarrow>
          (let title = str_strip (str_lower t);
               is_duplicate = (\<exists>seen_title\<in>seen_titles. calculate_similarity title seen_title > 8 / 10)
           in if \<not> is_duplicate
              then remove_duplicates_from scenarios (unique_scenarios @ [scenario])
                     (insert title seen_titles)
              else remove_duplicates_from scenarios unique_scenarios seen_titles)
      | _ \<Rightarrow> Inl AttributeError)"

definition remove_duplicate_scenarios :: "pydict list \<Rightarrow> exn + pydict list" where
  "remove_duplicate_scenarios scenarios = remove_duplicates_from scenarios [] {}"

section \<open>Rate budget: \<^verbatim>\<open>EnhancedAIClient._check_rate_limit\<close>\<close>

text \<open>
  \<^verbatim>\<open>self.llm_services\<close>: per service, whether it is enabled and its \<^verbatim>\<open>rate_limit\<close>
  entry where the table has one (\<^verbatim>\<open>ollama_local\<close> has none).
\<close>

record service_config =
  enabled :: bool
  rate_limit :: "int option"

definition llm_services :: "(string \<times> service_config) list" where
  "llm_services =
     [(''huggingface'', \<lparr>enabled = False, rate_limit = Some 1000\<rparr>),
      (''ollama_local'', \<lparr>enabled = True, rate_limit = None\<rparr>),
      (''groq'', \<lparr>enabled = True, rate_limit = Some 100\<rparr>)]"

text \<open>
  The two attributes the check reads and writes: \<^verbatim>\<open>self.request_counts\<close> and
  \<^verbatim>\<open>self.last_reset_time\<close>. The clock value \<^verbatim>\<open>time.time()\<close> is an argument.
\<close>

record rate_state =
  request_counts :: "string \<rightharpoonup> int"
  last_reset_time :: real

text \<open>\<^verbatim>\<open>self.llm_services.get(service, {}).get('rate_limit', 100)\<close>\<close>

definition service_rate_limit :: "string \<Rightarrow> int" where
  "service_rate_limit service =
     (case map_of llm_services service of
        None \<Rightarrow> 100
      | Some cfg \<Rightarrow> (case rate_limit cfg of None \<Rightarrow> 100 | Some n \<Rightarrow> n))"

definition check_rate_limit :: "string \<Rightarrow> real \<Rightarrow> rate_state \<Rightarrow> bool \<times> rate_state" where
  "check_rate_limit service current_time s =
     (let s1 = (if current_time - last_reset_time s > 3600
                then s\<lparr>request_counts := Map.empty, last_reset_time := current_time\<rparr>
                else s);
          limit = service_rate_limit service;
          current_count = (case request_counts s1 service of None \<Rightarrow> 0 | Some c \<Rightarrow> c)
      in if current_count \<ge> limit then (False, s1)
         else (True, s1\<lparr>request_counts := (request_counts s1)(service \<mapsto> current_count + 1)\<rparr>))"

text \<open>
  \<^verbatim>\<open>self.request_counts.get(service, 0)\<close>
\<close>

definition counter :: "rate_state \<Rightarrow> string \<Rightarrow> int" where
  "counter s service = (case request_counts s service of None \<Rightarrow> 0 | Some c \<Rightarrow> c)"

text \<open>
  Calls made one after the other, each a service and the clock value it reads, oldest
  first: the callers of the method (lines 162, 586 and 833) ask for one service after
  another in a loop.
\<close>

fun check_rate_limit_calls :: "(string \<times> real) list \<Rightarrow> rate_state \<Rightarrow> bool list \<times> rate_state" where
  "check_rate_limit_calls [] s = ([], s)"
| "check_rate_limit_calls ((service, current_time) # calls) s =
     (let (ok, s1) = check_rate_limit service current_time s;
          (oks, s2) = check_rate_limit_calls calls s1
      in (ok # oks, s2))"

text \<open>
  The method takes no lock, and nothing else in the class does. Between the statement
  that reads the counter (line 1313) and the one that writes it (line 1320) another call
  on the same object can run. The two halves of the body: lines 1304 to 1313, which leave
  the local \<^verbatim>\<open>current_count\<close>, and lines 1315 to 1321.
\<close>

definition check_rate_limit_read :: "string \<Rightarrow> real \<Rightarrow> rate_state \<Rightarrow> int \<times> rate_state" where
  "check_rate_limit_read service current_time s =
     (let s1 = (if current_time - last_reset_time s > 3600
                then s\<lparr>request_counts := Map.empty, last_reset_time := current_time\<rparr>
                else s);
          current_count = (case request_counts s1 service of None \<Rightarrow> 0 | Some c \<Rightarrow> c)
      in (current_count, s1))"

definition check_rate_limit_write :: "string \<Rightarrow> int \<Rightarrow> rate_state \<Rightarrow> bool \<times> rate_state" where
  "check_rate_limit_write service current_count s =
     (if current_count \<ge> service_rate_limit service then (False, s)
      else (True, s\<lparr>request_counts := (request_counts s)(service \<mapsto> current_count + 1)\<rparr>))"

text \<open>
  A call in progress: entered with its service and clock value, holding the count it has
  read, or returned. A schedule names, step by step, the call that runs its next half.
\<close>

datatype call_state = Called string real | Counted string int | Returned bool

fun call_step :: "call_state \<Rightarrow> rate_state \<Rightarrow> call_state \<times> rate_state" where
  "call_step (Called service current_time) s =
     (let (current_count, s1) = check_rate_limit_read service current_time s
      in (Counted service current_count, s1))"
| "call_step (Counted service current_count) s =
     (let (ok, s1) = check_rate_limit_write service current_count s in (Returned ok, s1))"
| "call_step (Returned ok) s = (Returned ok, s)"

fun run_schedule :: "nat list \<Rightarrow> call_state list \<Rightarrow> rate_state \<Rightarrow> call_state list \<times> rate_state" where
  "run_schedule [] calls s = (calls, s)"
| "run_schedule (i # schedule) calls s =
     (if i < length calls
      then (let (c, s1) = call_step (calls ! i) s in run_schedule schedule (calls[i := c]) s1)
      else run_schedule schedule calls s)"

section \<open>Bounding: \<^verbatim>\<open>AIServiceManager._ensure_scenario_limits\<close>\<close>

text \<open>
  Of a story the code modelled here reads \<^verbatim>\<open>story.get('fields', {})\<close> and, in it, the
  entries \<^verbatim>\<open>summary\<close> and \<^verbatim>\<open>description\<close>: a story is a dict whose \<^verbatim>\<open>fields\<close>
  entry, when it has one, is a dict of strings.
\<close>

type_synonym story = "(string \<times> (string \<times> string) list) list"

definition story_fields :: "story \<Rightarrow> (string \<times> string) list" where
  "story_fields story = (case map_of story ''fields'' of None \<Rightarrow> [] | Some f \<Rightarrow> f)"

definition fields_get :: "(string \<times> string) list \<Rightarrow> string \<Rightarrow> string \<Rightarrow> string" where
  "fields_get f k dflt = (case map_of f k of None \<Rightarrow> dflt | Some v \<Rightarrow> v)"

text \<open>\<^verbatim>\<open>str(i)\<close> for an integer.\<close>

definition str_of_int :: "int \<Rightarrow> string" where
  "str_of_int i = (if i < 0 then ''-'' @ str_of_nat (nat (- i)) else str_of_nat (nat i))"

text \<open>
  \<^verbatim>\<open>_generate_basic_scenario\<close>: three templates, chosen by \<^verbatim>\<open>(index - 1) % 3\<close>, then the
  steps and the automation entry.
\<close>

definition generate_basic_scenario :: "story \<Rightarrow> int \<Rightarrow> pydict" where
  "generate_basic_scenario story index =
     (let title = fields_get (story_fields story) ''summary'' ''Test Story'';
          scenario_types =
            [[(''title'', JStr (''Verify '' @ title @ '' - Functional Test '' @ str_of_int index)),
              (''description'', JStr (''Test core functionality of '' @ title)),
              (''severity'', JStr ''S3 - Moderate''),
              (''priority'', JStr ''P3 - Medium'')],
             [(''title'', JStr (''Verify '' @ title @ '' - Error Handling '' @ str_of_int index)),
              (''description'', JStr (''Test error handling for '' @ title)),
              (''severity'', JStr ''S2 - Major''),
              (''priority'', JStr ''P2 - High'')],
             [(''title'', JStr (''Verify '' @ title @ '' - Boundary Test '' @ str_of_int index)),
              (''description'', JStr (''Test boundary conditions for '' @ title)),
              (''severity'', JStr ''S3 - Moderate''),
              (''priority'', JStr ''P3 - Medium'')]];
          scenario_template = scenario_types ! nat ((index - 1) mod 3)
      in scenario_template @
         [(''steps'', JArr [JStr ''1. Set up test environment'',
                            JStr ''2. Execute test steps'',
                            JStr ''3. Verify expected results'',
                            JStr ''4. Clean up test data'']),
          (''automation'', JStr ''Manual'')])"

text \<open>
  \<^verbatim>\<open>_prioritize_scenarios\<close>. \<^verbatim>\<open>table.get(key, default)\<close> hashes the key, which raises
  \<^verbatim>\<open>TypeError\<close> on a list or a dict. \<^verbatim>\<open>sorted\<close> computes the key of every entry, in
  order, and then sorts stably by it.
\<close>

definition priority_order :: "(string \<times> int) list" where
  "priority_order =
     [(''P1 - Critical'', 1), (''P2 - High'', 2), (''P3 - Medium'', 3), (''P4 - Low'', 4)]"

definition severity_order :: "(string \<times> int) list" where
  "severity_order =
     [(''S1 - Critical'', 1), (''S2 - Major'', 2), (''S3 - Moderate'', 3), (''S4 - Low'', 4)]"

definition order_get :: "(string \<times> int) list \<Rightarrow> json \<Rightarrow> int \<Rightarrow> exn + int" where
  "order_get table key dflt =
     (case key of
        JStr k \<Rightarrow> Inr (case map_of table k of None \<Rightarrow> dflt | Some n \<Rightarrow> n)
      | JArr _ \<Rightarrow> Inl TypeError
      | JObj _ \<Rightarrow> Inl TypeError
      | _ \<Rightarrow> Inr dflt)"

definition scenario_score :: "pydict \<Rightarrow> exn + int" where
  "scenario_score scenario =
     (case order_get priority_order (dict_get scenario ''priority'' (JStr ''P3 - Medium'')) 3 of
        Inl e \<Rightarrow> Inl e
      | Inr priority \<Rightarrow>
          (case order_get severity_order (dict_get scenario ''severity'' (JStr ''S3 - Moderate'')) 3 of
             Inl e \<Rightarrow> Inl e
           | Inr severity \<Rightarrow> Inr (priority + severity)))"

fun scenario_scores :: "pydict list \<Rightarrow> exn + int list" where
  "scenario_scores [] = Inr []"
| "scenario_scores (scenario # scenarios) =
     (case scenario_score scenario of
        Inl e \<Rightarrow> Inl e
      | Inr k \<Rightarrow> (case scenario_scores scenarios of Inl e \<Rightarrow> Inl e | Inr ks \<Rightarrow> Inr (k # ks)))"

definition prioritize_scenarios :: "pydict list \<Rightarrow> exn + pydict list" where
  "prioritize_scenarios scenarios =
     (case scenario_scores scenarios of
        Inl e \<Rightarrow> Inl e
      | Inr keys \<Rightarrow> Inr (map snd (sort_key fst (zip keys scenarios))))"

text \<open>\<^verbatim>\<open>xs[:n]\<close>, where a negative \<open>n\<close> counts from the end.\<close>

definition slice_to :: "int \<Rightarrow> 'a list \<Rightarrow> 'a list" where
  "slice_to n xs = (if 0 \<le> n then take (nat n) xs else take (nat (int (length xs) + n)) xs)"

text \<open>
  The two bounds of the configuration, which \<^verbatim>\<open>get_ai_config\<close> always supplies, read from
  the environment with the defaults 3 and 10.
\<close>

record ai_config =
  min_scenarios :: int
  max_scenarios :: int

definition default_config :: ai_config where
  "default_config = \<lparr>min_scenarios = 3, max_scenarios = 10\<rparr>"

text \<open>The \<^verbatim>\<open>while len(scenarios) < min_scenarios\<close> loop.\<close>

function pad_scenarios :: "int \<Rightarrow> story \<Rightarrow> pydict list \<Rightarrow> pydict list" where
  "pad_scenarios min_s story scenarios =
     (if int (length scenarios) < min_s
      then pad_scenarios min_s story
             (scenarios @ [generate_basic_scenario story (int (length scenarios) + 1)])
      else scenarios)"
  by pat_completeness auto
termination
  by (relation "measure (\<lambda>(min_s, story, scenarios). nat (min_s - int (length scenarios)))") auto

definition ensure_scenario_limits :: "ai_config \<Rightarrow> pydict list \<Rightarrow> story \<Rightarrow> exn + pydict list" where
  "ensure_scenario_limits config scenarios story =
     (let scenarios = pad_scenarios (min_scenarios config) story scenarios
      in if int (length scenarios) > max_scenarios config
         then (case prioritize_scenarios scenarios of
                 Inl e \<Rightarrow> Inl e
               | Inr prioritized \<Rightarrow> Inr (slice_to (max_scenarios config) prioritized))
         else Inr scenarios)"

section \<open>The fallback tier: \<^verbatim>\<open>CursorAIClient.generate_test_scenarios\<close>\<close>

text \<open>
  What surrounds the two entry points. \<open>json_dumps\<close> is \<^verbatim>\<open>json.dumps(value, indent=2)\<close>
  (and \<^verbatim>\<open>json.dumps([])\<close>, the same text); \<open>md5_hexdigest\<close> is
  \<^verbatim>\<open>hashlib.md5(text.encode()).hexdigest()\<close>; \<open>groq_token\<close> is the configured token;
  \<open>time_now\<close> is \<^verbatim>\<open>time.time()\<close> as the rate check reads it; \<open>groq_post\<close> is the outcome of
  \<^verbatim>\<open>requests.post\<close> for the prompt built from a summary; \<open>cursor_scenarios\<close> is the
  rule-based generation of the fallback tier for a description that is not empty, from
  \<^verbatim>\<open>generate_comprehensive_scenarios(description)\<close> to the final \<^verbatim>\<open>json.dumps\<close>, with
  the tier's own \<^verbatim>\<open>except Exception: return json.dumps([])\<close>.
\<close>

record http_response =
  status_code :: int
  message_content :: "exn + string"

record env =
  library :: pylib
  json_dumps :: "json \<Rightarrow> string"
  md5_hexdigest :: "string \<Rightarrow> string"
  groq_token :: string
  time_now :: real
  groq_post :: "string \<Rightarrow> exn + http_response"
  cursor_scenarios :: "string \<Rightarrow> story \<Rightarrow> string"

definition cursor_generate_test_scenarios :: "env \<Rightarrow> story \<Rightarrow> string" where
  "cursor_generate_test_scenarios env story =
     (let fields = story_fields story
      in if fields = [] then json_dumps env (JArr [])
         else (let description = fields_get fields ''description'' [];
                   description = (if description = [] then fields_get fields ''summary'' []
                                  else description)
               in if description = [] then json_dumps env (JArr [])
                  else cursor_scenarios env description story))"

section \<open>The enhanced tier: \<^verbatim>\<open>EnhancedAIClient.generate_comprehensive_test_scenarios\<close>\<close>

text \<open>The attributes of the client that the entry point reads and writes.\<close>

record client_state =
  scenario_cache :: "string \<rightharpoonup> string"
  cache_enabled :: bool
  rate :: rate_state

definition generate_cache_key :: "(string \<Rightarrow> string) \<Rightarrow> story \<Rightarrow> string" where
  "generate_cache_key md5 story =
     (let fields = story_fields story;
          summary = fields_get fields ''summary'' [];
          key_content = take 100 summary
      in take 8 (md5 key_content))"

text \<open>
  \<^verbatim>\<open>_groq_ultra_fast\<close>: no token, a failed request, a status other than 200 or any
  exception give the empty list; otherwise the first ten parsed scenarios.
\<close>

definition groq_ultra_fast :: "env \<Rightarrow> story \<Rightarrow> pydict list" where
  "groq_ultra_fast env story =
     (if groq_token env = [] then []
      else (case groq_post env (fields_get (story_fields story) ''summary'' []) of
              Inl e \<Rightarrow> []
            | Inr response \<Rightarrow>
                (if status_code response = 200
                 then (case message_content response of
                         Inl e \<Rightarrow> []
                       | Inr content \<Rightarrow>
                           (case improved_parse_scenarios (library env) content of
                              Inl e \<Rightarrow> []
                            | Inr scenarios \<Rightarrow> take 10 scenarios))
                 else [])))"

text \<open>\<^verbatim>\<open>_ultra_fast_generation\<close>: the remote tier is used when its budget admits the call.\<close>

definition ultra_fast_generation :: "env \<Rightarrow> story \<Rightarrow> rate_state \<Rightarrow> pydict list \<times> rate_state" where
  "ultra_fast_generation env story rs =
     (case map_of llm_services ''groq'' of
        None \<Rightarrow> ([], rs)
      | Some cfg \<Rightarrow>
          (if enabled cfg
           then (let (ok, rs1) = check_rate_limit ''groq'' (time_now env) rs
                 in if ok
                    then (let scenarios = groq_ultra_fast env story
                          in if scenarios \<noteq> [] \<and> length scenarios \<ge> 5 then (scenarios, rs1)
                             else ([], rs1))
                    else ([], rs1))
           else ([], rs)))"

text \<open>\<^verbatim>\<open>_get_fallback_scenarios\<close>: the decoded output of the fallback tier when it is a list.\<close>

definition get_fallback_scenarios :: "env \<Rightarrow> story \<Rightarrow> json list" where
  "get_fallback_scenarios env story =
     (case json_loads (library env) (cursor_generate_test_scenarios env story) of
        Inr (JArr scenarios) \<Rightarrow> scenarios
      | _ \<Rightarrow> [])"

text \<open>
  \<^verbatim>\<open>_determine_journey\<close>: the summary looked up in the journey table of the fallback
  client, \<^verbatim>\<open>Account\<close> otherwise.
\<close>

definition journey_mapping :: "(string \<times> string) list" where
  "journey_mapping =
     [(''logistics'', ''Account''), (''payment'', ''Account''),
      (''marketplace'', ''Seller Management''), (''user_management'', ''Account''),
      (''orders'', ''Purchase''), (''inventory'', ''Account''), (''healthcare'', ''Account''),
      (''ecommerce'', ''Purchase''), (''reporting'', ''Account'')]"

definition determine_journey :: "story \<Rightarrow> string" where
  "determine_journey story =
     fields_get journey_mapping (fields_get (story_fields story) ''summary'' []) ''Account''"

text \<open>
  \<^verbatim>\<open>_validate_and_enhance_scenarios\<close>: an entry that is not a dict is skipped; the title
  is sliced with \<^verbatim>\<open>[:255]\<close>, which raises \<^verbatim>\<open>TypeError\<close> unless it is a string or a list;
  a string of steps becomes a one-element list; the result is deduplicated.
\<close>

fun enhance_scenarios :: "story \<Rightarrow> json list \<Rightarrow> pydict list \<Rightarrow> exn + pydict list" where
  "enhance_scenarios story [] validated_scenarios = Inr validated_scenarios"
| "enhance_scenarios story (JObj scenario # scenarios) validated_scenarios =
     (case (case dict_get scenario ''title'' (JStr ''Test Scenario'') of
              JStr t \<Rightarrow> Inr (JStr (take 255 t))
            | JArr xs \<Rightarrow> Inr (JArr (take 255 xs))
            | _ \<Rightarrow> Inl TypeError) of
        Inl e \<Rightarrow> Inl e
      | Inr title \<Rightarrow>
          enhance_scenarios story scenarios
            (validated_scenarios @
               [[(''title'', title),
                 (''description'', dict_get scenario ''description'' (JStr ''Test scenario description'')),
                 (''steps'',
                    (case dict_get scenario ''steps''
                            (JArr [JStr ''1. Execute test'', JStr ''2. Verify results'']) of
                       JStr step \<Rightarrow> JArr [JStr step]
                     | steps \<Rightarrow> steps)),
                 (''severity'', dict_get scenario ''severity'' (JStr ''S3 - Moderate'')),
                 (''priority'', dict_get scenario ''priority'' (JStr ''P3 - Medium'')),
                 (''automation'', dict_get scenario ''automation'' (JStr ''Manual'')),
                 (''journey'', JStr (determine_journey story))]]))"
| "enhance_scenarios story (scenario # scenarios) validated_scenarios =
     enhance_scenarios story scenarios validated_scenarios"

definition validate_and_enhance_scenarios :: "json list \<Rightarrow> story \<Rightarrow> exn + pydict list" where
  "validate_and_enhance_scenarios scenarios story =
     (case enhance_scenarios story scenarios [] of
        Inl e \<Rightarrow> Inl e
      | Inr validated_scenarios \<Rightarrow> remove_duplicate_scenarios validated_scenarios)"

text \<open>
  The generation between the cache lookup and the cache store: the body of the \<^verbatim>\<open>try\<close>
  after the lookup, up to \<^verbatim>\<open>json.dumps\<close>. It returns the text or the exception raised,
  and the rate state the remote tier leaves.
\<close>

definition generate_uncached :: "env \<Rightarrow> story \<Rightarrow> rate_state \<Rightarrow> (exn + string) \<times> rate_state" where
  "generate_uncached env story rs =
     (let (generated, rs1) = ultra_fast_generation env story rs;
          scenarios = map JObj generated;
          scenarios = (if scenarios = [] \<or> length scenarios < 3
                       then scenarios @ get_fallback_scenarios env story
                       else scenarios)
      in case validate_and_enhance_scenarios scenarios story of
           Inl e \<Rightarrow> (Inl e, rs1)
         | Inr validated_scenarios \<Rightarrow>
             (Inr (json_dumps env (JArr (map JObj validated_scenarios))), rs1))"

text \<open>
  The entry point: a cached text is returned as it is; a generated text is stored under the
  key when caching is enabled; after an exception the output of the fallback tier is
  returned and nothing is stored.
\<close>

definition generate_comprehensive_test_scenarios ::
  "env \<Rightarrow> story \<Rightarrow> client_state \<Rightarrow> string \<times> client_state" where
  "generate_comprehensive_test_scenarios env story s =
     (let cache_key = generate_cache_key (md5_hexdigest env) story
      in case (if cache_enabled s then scenario_cache s cache_key else None) of
           Some cached \<Rightarrow> (cached, s)
         | None \<Rightarrow>
             (case generate_uncached env story (rate s) of
                (Inr result, rs1) \<Rightarrow>
                  (result,
                   if cache_enabled s
                   then s\<lparr>scenario_cache := (scenario_cache s)(cache_key \<mapsto> result), rate := rs1\<rparr>
                   else s\<lparr>rate := rs1\<rparr>)
              | (Inl e, rs1) \<Rightarrow> (cursor_generate_test_scenarios env story, s\<lparr>rate := rs1\<rparr>)))"

section \<open>The entry point: \<^verbatim>\<open>AIServiceManager.generate_test_scenarios\<close>\<close>

text \<open>Truth value and \<^verbatim>\<open>len\<close> of a decoded value; \<^verbatim>\<open>len\<close> of a number raises.\<close>

fun truthy :: "json \<Rightarrow> bool" where
  "truthy JNull = False"
| "truthy (JBool b) = b"
| "truthy (JNum n) = (n \<noteq> 0)"
| "truthy (JStr s) = (s \<noteq> [])"
| "truthy (JArr xs) = (xs \<noteq> [])"
| "truthy (JObj d) = (d \<noteq> [])"

fun py_len :: "json \<Rightarrow> exn + nat" where
  "py_len (JStr s) = Inr (length s)"
| "py_len (JArr xs) = Inr (length xs)"
| "py_len (JObj d) = Inr (length d)"
| "py_len _ = Inl TypeError"

text \<open>
  The class defines \<^verbatim>\<open>_generate_basic_scenario(story, index)\<close> and
  \<^verbatim>\<open>_generate_minimal_scenarios(story)\<close>, and no \<^verbatim>\<open>_generate_basic_scenarios\<close>: the two
  calls \<^verbatim>\<open>self._generate_basic_scenarios(story)\<close> raise \<^verbatim>\<open>AttributeError\<close> when they
  look the attribute up.
\<close>

definition generate_basic_scenarios :: "story \<Rightarrow> exn + string" where
  "generate_basic_scenarios story = Inl AttributeError"

text \<open>
  The body of the \<^verbatim>\<open>try\<close>: the enhanced result is returned when it decodes to at least
  three scenarios, otherwise the fallback result when it is not empty and decodes, otherwise
  the basic scenarios.
\<close>

definition enhanced_accepted :: "env \<Rightarrow> string \<Rightarrow> exn + bool" where
  "enhanced_accepted env enhanced_result =
     (if enhanced_result \<noteq> []
      then (case json_loads (library env) enhanced_result of
              Inr scenarios \<Rightarrow>
                (if truthy scenarios
                 then (case py_len scenarios of Inl e \<Rightarrow> Inl e | Inr n \<Rightarrow> Inr (n \<ge> 3))
                 else Inr False)
            | Inl JSONDecodeError \<Rightarrow> Inr False
            | Inl e \<Rightarrow> Inl e)
      else Inr False)"

definition fallback_accepted :: "env \<Rightarrow> string \<Rightarrow> exn + bool" where
  "fallback_accepted env fallback_result =
     (if fallback_result \<noteq> []
      then (case json_loads (library env) fallback_result of
              Inr scenarios \<Rightarrow> Inr True
            | Inl JSONDecodeError \<Rightarrow> Inr False
            | Inl e \<Rightarrow> Inl e)
      else Inr False)"

definition generate_test_scenarios ::
  "env \<Rightarrow> story \<Rightarrow> client_state \<Rightarrow> (exn + string) \<times> client_state" where
  "generate_test_scenarios env story s =
     (let (enhanced_result, s1) = generate_comprehensive_test_scenarios env story s;
          attempt =
            (case enhanced_accepted env enhanced_result of
               Inl e \<Rightarrow> Inl e
             | Inr True \<Rightarrow> Inr enhanced_result
             | Inr False \<Rightarrow>
                 (let fallback_result = cursor_generate_test_scenarios env story
                  in case fallback_accepted env fallback_result of
                       Inl e \<Rightarrow> Inl e
                     | Inr True \<Rightarrow> Inr fallback_result
                     | Inr False \<Rightarrow> generate_basic_scenarios story))
      in (case attempt of
            Inr result \<Rightarrow> Inr result
          | Inl e \<Rightarrow> generate_basic_scenarios story,
          s1))"

section \<open>Vocabulary of the properties\<close>

text \<open>The rate budget: how many calls of a run ask for a service.\<close>

definition calls_for :: "string \<Rightarrow> (string \<times> real) list \<Rightarrow> nat" where
  "calls_for service calls = length (filter (\<lambda>call. fst call = service) calls)"

text \<open>
  A hundred calls for \<^verbatim>\<open>groq\<close>, each followed by one for \<^verbatim>\<open>ollama_local\<close>; and a
  state in which \<^verbatim>\<open>groq\<close> has one call left.
\<close>

definition alternating_calls :: "(string \<times> real) list" where
  "alternating_calls = concat (replicate 100 [(''groq'', 0), (''ollama_local'', 5)])"

definition last_slot :: rate_state where
  "last_slot = \<lparr>request_counts = [''groq'' \<mapsto> 99], last_reset_time = 0\<rparr>"

text \<open>
  A record whose \<^verbatim>\<open>priority\<close> and \<^verbatim>\<open>severity\<close> entries, where it has them, are not
  lists or dicts: the entries \<^verbatim>\<open>_prioritize_scenarios\<close> can look up.
\<close>

definition levels_hashable :: "pydict \<Rightarrow> bool" where
  "levels_hashable scenario =
     (\<forall>k\<in>set [''priority'', ''severity''].
        case map_of scenario k of Some (JArr _) \<Rightarrow> False | Some (JObj _) \<Rightarrow> False | _ \<Rightarrow> True)"

text \<open>
  The ordinal of a level entry as the specification counts it: 1 for the most important
  level to 4 for the least, and 3 for an entry that is absent or is not one of the four
  level names. The importance of a record is the sum of its two ordinals, smaller being
  more important.
\<close>

definition priority_ordinal :: "json option \<Rightarrow> int" where
  "priority_ordinal level =
     (if level = Some (JStr ''P1 - Critical'') then 1
      else if level = Some (JStr ''P2 - High'') then 2
      else if level = Some (JStr ''P4 - Low'') then 4
      else 3)"

definition severity_ordinal :: "json option \<Rightarrow> int" where
  "severity_ordinal level =
     (if level = Some (JStr ''S1 - Critical'') then 1
      else if level = Some (JStr ''S2 - Major'') then 2
      else if level = Some (JStr ''S4 - Low'') then 4
      else 3)"

definition importance :: "pydict \<Rightarrow> int" where
  "importance scenario =
     priority_ordinal (map_of scenario ''priority'') + severity_ordinal (map_of scenario ''severity'')"

text \<open>
  Eleven records: one of the lowest importance first, nine of medium priority, and one of
  the highest importance last.
\<close>

definition titled :: "string \<Rightarrow> string \<Rightarrow> string \<Rightarrow> pydict" where
  "titled title priority severity =
     [(''title'', JStr title), (''priority'', JStr priority), (''severity'', JStr severity)]"

definition eleven_records :: "pydict list" where
  "eleven_records =
     titled ''Check the audit log'' ''P4 - Low'' ''S4 - Low''
     # map (\<lambda>title. [(''title'', JStr title), (''priority'', JStr ''P3 - Medium'')])
         [''Check a'', ''Check b'', ''Check c'', ''Check d'', ''Check e'',
          ''Check f'', ''Check g'', ''Check h'', ''Check i'']
     @ [titled ''Check the payment'' ''P1 - Critical'' ''S1 - Critical'']"

definition login_story :: story where
  "login_story = [(''fields'', [(''summary'', ''Login'')])]"

text \<open>\<^verbatim>\<open>story.get('fields', {}).get('summary', '')\<close>\<close>

definition story_summary :: "story \<Rightarrow> string" where
  "story_summary story = fields_get (story_fields story) ''summary'' []"

text \<open>
  A concrete environment for the examples: no Groq token, no network, and the library
  functions given on the texts the examples reach. \<^verbatim>\<open>json.dumps([], indent=2)\<close> is
  \<^verbatim>\<open>[]\<close>, which \<^verbatim>\<open>json.loads\<close> decodes to the empty list, and the MD5 digest of the
  empty text begins with \<^verbatim>\<open>d41d8cd9\<close>; the other values of the three functions are
  stand-ins.
\<close>

definition offline_lib :: pylib where
  "offline_lib =
     \<lparr>json_loads = (\<lambda>text. if text = ''[]'' then Inr (JArr []) else Inl JSONDecodeError),
      re_sub = (\<lambda>pattern repl text. text),
      re_search = (\<lambda>pattern text. None),
      re_search_group1 = (\<lambda>pattern text. None),
      re_findall = (\<lambda>pattern text. [])\<rparr>"

definition offline_env :: env where
  "offline_env =
     \<lparr>library = offline_lib,
      json_dumps = (\<lambda>v. if v = JArr [] then ''[]'' else ''[{}]''),
      md5_hexdigest = (\<lambda>text. if text = [] then ''d41d8cd98f00b204e9800998ecf8427e''
                              else ''00000000000000000000000000000000''),
      groq_token = [],
      time_now = 0,
      groq_post = (\<lambda>summary. Inl OtherError),
      cursor_scenarios = (\<lambda>description story. ''[]'')\<rparr>"

definition blank_story :: story where
  "blank_story = [(''fields'', [(''summary'', []), (''description'', [])])]"

definition fresh_client :: client_state where
  "fresh_client =
     \<lparr>scenario_cache = Map.empty, cache_enabled = True,
      rate = \<lparr>request_counts = Map.empty, last_reset_time = 0\<rparr>\<rparr>"

definition used_client :: client_state where
  "used_client =
     \<lparr>scenario_cache = [''d41d8cd9'' \<mapsto> ''[]''], cache_enabled = True,
      rate = \<lparr>request_counts = [''groq'' \<mapsto> 1], last_reset_time = 0\<rparr>\<rparr>"

text \<open>Two stories whose summaries differ only after the first 100 characters.\<close>

definition long_story :: "string \<Rightarrow> story" where
  "long_story ending = [(''fields'', [(''summary'', replicate 100 CHR ''a'' @ ending)])]"

definition long_client :: client_state where
  "long_client =
     \<lparr>scenario_cache = [''00000000'' \<mapsto> ''[]''], cache_enabled = True,
      rate = \<lparr>request_counts = [''groq'' \<mapsto> 1], last_reset_time = 0\<rparr>\<rparr>"

text \<open>
  For the deduplication: whether the \<^verbatim>\<open>title\<close> entry of a record is a string (or
  absent, which reads as the empty string); the title as the loop normalises it,
  \<^verbatim>\<open>title.lower().strip()\<close>; the set of lower-cased words of the title; and the Jaccard
  index of two word sets as the specification words it: the size of the intersection
  divided by the size of the union, 0 when either set is empty.
\<close>

definition has_text_title :: "pydict \<Rightarrow> bool" where
  "has_text_title scenario =
     (case dict_get scenario ''title'' (JStr []) of JStr t \<Rightarrow> True | _ \<Rightarrow> False)"

definition title_key :: "pydict \<Rightarrow> string" where
  "title_key scenario =
     (case dict_get scenario ''title'' (JStr []) of JStr t \<Rightarrow> str_strip (str_lower t) | _ \<Rightarrow> [])"

definition title_tokens :: "pydict \<Rightarrow> string set" where
  "title_tokens scenario =
     (case dict_get scenario ''title'' (JStr []) of
        JStr t \<Rightarrow> set (str_split (str_lower t))
      | _ \<Rightarrow> {})"

definition jaccard :: "string set \<Rightarrow> string set \<Rightarrow> real" where
  "jaccard A B = (if A = {} \<or> B = {} then 0 else real (card (A \<inter> B)) / real (card (A \<union> B)))"

definition near_duplicates :: "pydict \<Rightarrow> pydict \<Rightarrow> bool" where
  "near_duplicates a b = (jaccard (title_tokens a) (title_tokens b) > 8 / 10)"

text \<open>Three records, the second a respelling of the first.\<close>

definition login_records :: "pydict list" where
  "login_records =
     [[(''title'', JStr ''Check login'')],
      [(''title'', JStr '' check  LOGIN '')],
      [(''title'', JStr ''Check logout'')]]"

text \<open>
  Two candidates for the validator: a title with an enumeration and markers, and a
  candidate whose severity is free text.
\<close>

definition login_candidate :: pydict where
  "login_candidate = [(''title'', JStr ''1. **login** works - ok'')]"

definition blocker_candidate :: pydict where
  "blocker_candidate = [(''title'', JStr ''Check the login page''), (''severity'', JStr ''Blocker'')]"

text \<open>
  For the parse cascade. A decoding yields nothing when \<^verbatim>\<open>json.loads\<close> raises
  \<^verbatim>\<open>JSONDecodeError\<close> or returns anything but a non-empty list. The bracket stages yield
  nothing when the cleaned text has no bracketed substring, or the substring decodes to
  anything but a non-empty list, or its decoding raises \<^verbatim>\<open>JSONDecodeError\<close> and the
  repaired text is empty or yields nothing in turn. \<open>validated_or fallback entries\<close> is
  what a stage returns for the decoded entries: the entries the validator accepts, or, when
  the validator raises, the fallback of the enclosing \<^verbatim>\<open>except\<close>.
\<close>

definition decode_yields_nothing :: "pylib \<Rightarrow> string \<Rightarrow> bool" where
  "decode_yields_nothing lib text =
     (case json_loads lib text of
        Inl e \<Rightarrow> e = JSONDecodeError
      | Inr (JArr (x # xs)) \<Rightarrow> False
      | Inr _ \<Rightarrow> True)"

definition bracket_yields_nothing :: "pylib \<Rightarrow> string \<Rightarrow> bool" where
  "bracket_yields_nothing lib text =
     (case re_search lib Json_Array (clean_response_text lib text) of
        None \<Rightarrow> True
      | Some json_match \<Rightarrow>
          (case json_loads lib json_match of
             Inr (JArr (x # xs)) \<Rightarrow> False
           | Inr _ \<Rightarrow> True
           | Inl e \<Rightarrow>
               e = JSONDecodeError \<and>
               (case fix_malformed_json lib json_match of
                  None \<Rightarrow> True
                | Some fixed_json \<Rightarrow> fixed_json = [] \<or> decode_yields_nothing lib fixed_json)))"

definition validated_or :: "pydict list \<Rightarrow> json list \<Rightarrow> pydict list" where
  "validated_or fallback scenarios =
     (case clean_scenarios scenarios [] of Inl e \<Rightarrow> fallback | Inr cleaned \<Rightarrow> cleaned)"

section \<open>Properties of the rate budget\<close>

lemma service_rate_limit_pos: "0 < service_rate_limit service"
  by (simp add: service_rate_limit_def llm_services_def)

lemma check_rate_limit_phases:
  "check_rate_limit service current_time s
     = (let (current_count, s1) = check_rate_limit_read service current_time s
        in check_rate_limit_write service current_count s1)"
  by (simp add: check_rate_limit_def check_rate_limit_read_def check_rate_limit_write_def Let_def)

lemma run_schedule_alone:
  "run_schedule [0, 0] [Called service current_time] s
     = (let (ok, s1) = check_rate_limit service current_time s in ([Returned ok], s1))"
  by (simp add: check_rate_limit_phases split_beta Let_def)

lemma check_rate_limit_inside:
  assumes "current_time - last_reset_time s \<le> 3600"
  shows "check_rate_limit service current_time s
       = (counter s service < service_rate_limit service,
          if counter s service < service_rate_limit service
          then s\<lparr>request_counts := (request_counts s)(service \<mapsto> counter s service + 1)\<rparr>
          else s)"
  using assms by (simp add: check_rate_limit_def counter_def Let_def not_le)

lemma calls_for_Cons:
  "calls_for v ((u, t) # calls) = (if u = v then Suc (calls_for v calls) else calls_for v calls)"
  by (simp add: calls_for_def)

lemma length_check_rate_limit_calls: "length (fst (check_rate_limit_calls calls s)) = length calls"
proof (induction calls arbitrary: s)
  case Nil
  then show ?case by simp
next
  case (Cons call calls)
  obtain u t where "call = (u, t)" by (cases call)
  then show ?case using Cons.IH by (simp add: split_beta)
qed

lemma check_rate_limit_calls_inside:
  assumes "\<forall>call\<in>set calls. snd call - last_reset_time s \<le> 3600"
  shows "last_reset_time (snd (check_rate_limit_calls calls s)) = last_reset_time s
       \<and> (\<forall>v. request_counts (snd (check_rate_limit_calls calls s)) v
              = (if counter s v < service_rate_limit v \<and> 0 < calls_for v calls
                 then Some (min (service_rate_limit v) (counter s v + int (calls_for v calls)))
                 else request_counts s v))
       \<and> (\<forall>k<length calls.
             fst (check_rate_limit_calls calls s) ! k
               = (counter s (fst (calls ! k)) + int (calls_for (fst (calls ! k)) (take k calls))
                    < service_rate_limit (fst (calls ! k))))"
  using assms
proof (induction calls arbitrary: s)
  case Nil
  then show ?case by (simp add: calls_for_def)
next
  case (Cons call calls)
  obtain u t where call: "call = (u, t)" by (cases call)
  let ?ok = "counter s u < service_rate_limit u"
  let ?s1 = "if ?ok then s\<lparr>request_counts := (request_counts s)(u \<mapsto> counter s u + 1)\<rparr> else s"
  have inside: "t - last_reset_time s \<le> 3600" using Cons.prems call by simp
  have step: "check_rate_limit u t s = (?ok, ?s1)"
    by (rule check_rate_limit_inside [OF inside])
  have reset1: "last_reset_time ?s1 = last_reset_time s" by simp
  have w: "\<forall>call\<in>set calls. snd call - last_reset_time ?s1 \<le> 3600"
    using Cons.prems by simp
  note ih = Cons.IH [OF w]
  have run: "check_rate_limit_calls (call # calls) s
      = (?ok # fst (check_rate_limit_calls calls ?s1), snd (check_rate_limit_calls calls ?s1))"
    using step call by (simp add: split_beta)
  have c_other: "counter ?s1 v = counter s v" if "v \<noteq> u" for v
    using that by (simp add: counter_def)
  have r_other: "request_counts ?s1 v = request_counts s v" if "v \<noteq> u" for v
    using that by simp
  have c_same: "counter ?s1 u = (if ?ok then counter s u + 1 else counter s u)"
    by (simp add: counter_def)
  have r_same: "request_counts ?s1 u = (if ?ok then Some (counter s u + 1) else request_counts s u)"
    by simp
  have p1: "last_reset_time (snd (check_rate_limit_calls (call # calls) s)) = last_reset_time s"
    using ih reset1 run by simp
  have p2: "request_counts (snd (check_rate_limit_calls (call # calls) s)) v
              = (if counter s v < service_rate_limit v \<and> 0 < calls_for v (call # calls)
                 then Some (min (service_rate_limit v) (counter s v + int (calls_for v (call # calls))))
                 else request_counts s v)" for v
  proof (cases "v = u")
    case False
    then show ?thesis
      using ih c_other [OF False] r_other [OF False] run call
      by (simp add: calls_for_Cons del: fun_upd_apply)
  next
    case True
    from ih have f: "request_counts (snd (check_rate_limit_calls calls ?s1)) u
              = (if counter ?s1 u < service_rate_limit u \<and> 0 < calls_for u calls
                 then Some (min (service_rate_limit u) (counter ?s1 u + int (calls_for u calls)))
                 else request_counts ?s1 u)"
      by blast
    show ?thesis
    proof (cases ?ok)
      case ok: True
      then have "counter ?s1 u = counter s u + 1" and "request_counts ?s1 u = Some (counter s u + 1)"
        using c_same r_same by simp_all
      then show ?thesis
        using f ok True run call by (auto simp: calls_for_Cons min_def simp del: fun_upd_apply)
    next
      case no: False
      then have "counter ?s1 u = counter s u" and "request_counts ?s1 u = request_counts s u"
        using c_same r_same by simp_all
      then show ?thesis
        using f no True run call by (simp add: calls_for_Cons del: fun_upd_apply)
    qed
  qed
  have p3: "fst (check_rate_limit_calls (call # calls) s) ! k
               = (counter s (fst ((call # calls) ! k))
                    + int (calls_for (fst ((call # calls) ! k)) (take k (call # calls)))
                    < service_rate_limit (fst ((call # calls) ! k)))"
    if k: "k < length (call # calls)" for k
  proof (cases k)
    case 0
    then show ?thesis using run call by (simp add: calls_for_def)
  next
    case (Suc j)
    then have j: "j < length calls" using k by simp
    let ?v = "fst (calls ! j)"
    from ih j have d: "fst (check_rate_limit_calls calls ?s1) ! j
               = (counter ?s1 ?v + int (calls_for ?v (take j calls)) < service_rate_limit ?v)"
      by blast
    have "(counter ?s1 ?v + int (calls_for ?v (take j calls)) < service_rate_limit ?v)
        = (counter s ?v + int (calls_for ?v ((u, t) # take j calls)) < service_rate_limit ?v)"
    proof (cases "?v = u")
      case False
      then show ?thesis using c_other [OF False] by (simp add: calls_for_Cons del: fun_upd_apply)
    next
      case True
      then show ?thesis using c_same by (auto simp: calls_for_Cons simp del: fun_upd_apply)
    qed
    then show ?thesis using d Suc run call by simp
  qed
  show ?case using p1 p2 p3 by blast
qed


lemma calls_for_append: "calls_for v (xs @ ys) = calls_for v xs + calls_for v ys"
  by (simp add: calls_for_def)

lemma calls_for_earlier:
  assumes "k < length calls" and "fst (calls ! k) = v"
  shows "calls_for v (take k calls) < calls_for v calls"
proof -
  have "calls = take k calls @ calls ! k # drop (Suc k) calls"
    using assms(1) by (rule id_take_nth_drop)
  then have "calls_for v calls
      = calls_for v (take k calls) + calls_for v (calls ! k # drop (Suc k) calls)"
    by (metis calls_for_append)
  moreover have "0 < calls_for v (calls ! k # drop (Suc k) calls)"
    using assms(2) by (simp add: calls_for_def)
  ultimately show ?thesis by simp
qed

lemma calls_for_concat_replicate:
  "calls_for v (concat (replicate n xs)) = n * calls_for v xs"
  by (induction n) (simp_all add: calls_for_append calls_for_def)

text \<open>
  C3, as the specification states it, fails. The check is not atomic: when \<^verbatim>\<open>groq\<close>
  has one call left of its hundred and two calls overlap, each reading the counter before
  the other writes it, both return true and the counter goes up by one only. Run one after
  the other, the second of the two returns false.
\<close>

theorem check_rate_limit_overlapping_calls:
  "run_schedule [0, 1, 0, 1] [Called ''groq'' 0, Called ''groq'' 0] last_slot
     = ([Returned True, Returned True],
        \<lparr>request_counts = [''groq'' \<mapsto> 100], last_reset_time = 0\<rparr>)
   \<and> service_rate_limit ''groq'' = 100
   \<and> run_schedule [0, 0, 1, 1] [Called ''groq'' 0, Called ''groq'' 0] last_slot
     = ([Returned True, Returned False],
        \<lparr>request_counts = [''groq'' \<mapsto> 100], last_reset_time = 0\<rparr>)"
  by (simp add: last_slot_def check_rate_limit_read_def check_rate_limit_write_def
        service_rate_limit_def llm_services_def Let_def)

text \<open>
  C3, amended to calls that run one after the other. In any sequence of calls, for any
  services in any order, that all fall inside the window of the state they start from:
  the call at position \<open>k\<close> returns true exactly when the counter of its service at the
  start plus the number of earlier calls for that service is below the service's limit; at
  the end each service that was below its limit and was called has the counter
  \<open>min limit (counter + calls)\<close>, every other entry of \<^verbatim>\<open>request_counts\<close> is as it
  was, and the window start is as it was. So, starting from a fresh window, when a sequence
  holds \<open>limit\<close> calls for a service, all of them return true, the counter is then
  \<open>limit\<close>, and a further call for the service inside the window returns false and leaves
  the state as it is. And whatever the state, a call made more than 3600 seconds after the
  last reset returns true and leaves a state whose only counter is this service's, at 1,
  with the window restarted at the call's time.
\<close>

theorem check_rate_limit_serial:
  "((\<forall>call\<in>set calls. snd call - last_reset_time s \<le> 3600) \<longrightarrow>
        length (fst (check_rate_limit_calls calls s)) = length calls
      \<and> (\<forall>k<length calls.
            fst (check_rate_limit_calls calls s) ! k
              = (counter s (fst (calls ! k)) + int (calls_for (fst (calls ! k)) (take k calls))
                   < service_rate_limit (fst (calls ! k))))
      \<and> (\<forall>v. request_counts (snd (check_rate_limit_calls calls s)) v
              = (if counter s v < service_rate_limit v \<and> 0 < calls_for v calls
                 then Some (min (service_rate_limit v) (counter s v + int (calls_for v calls)))
                 else request_counts s v))
      \<and> last_reset_time (snd (check_rate_limit_calls calls s)) = last_reset_time s)
   \<and> (request_counts s = Map.empty
      \<and> (\<forall>call\<in>set calls. snd call - last_reset_time s \<le> 3600)
      \<and> int (calls_for service calls) = service_rate_limit service
      \<and> t' - last_reset_time s \<le> 3600 \<longrightarrow>
        (\<forall>k<length calls. fst (calls ! k) = service \<longrightarrow> fst (check_rate_limit_calls calls s) ! k)
      \<and> counter (snd (check_rate_limit_calls calls s)) service = service_rate_limit service
      \<and> check_rate_limit service t' (snd (check_rate_limit_calls calls s))
          = (False, snd (check_rate_limit_calls calls s)))
   \<and> (now - last_reset_time s > 3600 \<longrightarrow>
        check_rate_limit service now s
          = (True, s\<lparr>request_counts := [service \<mapsto> 1], last_reset_time := now\<rparr>))"
proof (intro conjI impI)
  assume w: "\<forall>call\<in>set calls. snd call - last_reset_time s \<le> 3600"
  note run = check_rate_limit_calls_inside [OF w]
  show "length (fst (check_rate_limit_calls calls s)) = length calls"
    by (rule length_check_rate_limit_calls)
  show "\<forall>k<length calls.
            fst (check_rate_limit_calls calls s) ! k
              = (counter s (fst (calls ! k)) + int (calls_for (fst (calls ! k)) (take k calls))
                   < service_rate_limit (fst (calls ! k)))"
    using run by blast
  show "\<forall>v. request_counts (snd (check_rate_limit_calls calls s)) v
              = (if counter s v < service_rate_limit v \<and> 0 < calls_for v calls
                 then Some (min (service_rate_limit v) (counter s v + int (calls_for v calls)))
                 else request_counts s v)"
    using run by blast
  show "last_reset_time (snd (check_rate_limit_calls calls s)) = last_reset_time s"
    using run by blast
next
  assume a: "request_counts s = Map.empty
      \<and> (\<forall>call\<in>set calls. snd call - last_reset_time s \<le> 3600)
      \<and> int (calls_for service calls) = service_rate_limit service
      \<and> t' - last_reset_time s \<le> 3600"
  let ?r = "check_rate_limit_calls calls s"
  from a have w: "\<forall>call\<in>set calls. snd call - last_reset_time s \<le> 3600" by simp
  note run = check_rate_limit_calls_inside [OF w]
  have c0: "counter s service = 0" using a by (simp add: counter_def)
  have n: "0 < calls_for service calls"
    using a service_rate_limit_pos [of service] by linarith
  have "request_counts (snd ?r) service
      = (if counter s service < service_rate_limit service \<and> 0 < calls_for service calls
         then Some (min (service_rate_limit service) (counter s service + int (calls_for service calls)))
         else request_counts s service)"
    using run by blast
  then have cnt: "request_counts (snd ?r) service = Some (service_rate_limit service)"
    using c0 n a service_rate_limit_pos [of service] by simp
  show "\<forall>k<length calls. fst (calls ! k) = service \<longrightarrow> fst ?r ! k"
  proof (intro allI impI)
    fix k assume k: "k < length calls" and v: "fst (calls ! k) = service"
    have "int (calls_for service (take k calls)) < service_rate_limit service"
      using calls_for_earlier [OF k v] a by linarith
    moreover have "fst ?r ! k
        = (counter s (fst (calls ! k)) + int (calls_for (fst (calls ! k)) (take k calls))
             < service_rate_limit (fst (calls ! k)))"
      using run k by blast
    ultimately show "fst ?r ! k" using v c0 by simp
  qed
  show "counter (snd ?r) service = service_rate_limit service"
    using cnt by (simp add: counter_def)
  have "last_reset_time (snd ?r) = last_reset_time s" using run by blast
  then show "check_rate_limit service t' (snd ?r) = (False, snd ?r)"
    using a cnt by (simp add: check_rate_limit_def Let_def)
next
  assume "now - last_reset_time s > 3600"
  then show "check_rate_limit service now s
      = (True, s\<lparr>request_counts := [service \<mapsto> 1], last_reset_time := now\<rparr>)"
    using service_rate_limit_pos [of service]
    by (simp add: check_rate_limit_def Let_def)
qed

theorem check_rate_limit_serial_witness:
  "fst (check_rate_limit_calls
          [(''groq'', 0), (''ollama_local'', 1), (''groq'', 2), (''ollama_local'', 3)] last_slot)
     = [True, True, False, True]
   \<and> request_counts (snd (check_rate_limit_calls
          [(''groq'', 0), (''ollama_local'', 1), (''groq'', 2), (''ollama_local'', 3)] last_slot))
       ''groq'' = Some 100
   \<and> request_counts (snd (check_rate_limit_calls
          [(''groq'', 0), (''ollama_local'', 1), (''groq'', 2), (''ollama_local'', 3)] last_slot))
       ''ollama_local'' = Some 2
   \<and> request_counts (snd (check_rate_limit_calls
          [(''groq'', 0), (''ollama_local'', 1), (''groq'', 2), (''ollama_local'', 3)] last_slot))
       ''huggingface'' = None
   \<and> counter (snd (check_rate_limit_calls alternating_calls
          \<lparr>request_counts = Map.empty, last_reset_time = 0\<rparr>)) ''groq'' = 100
   \<and> check_rate_limit ''groq'' 3600
         (snd (check_rate_limit_calls alternating_calls
            \<lparr>request_counts = Map.empty, last_reset_time = 0\<rparr>))
       = (False, snd (check_rate_limit_calls alternating_calls
            \<lparr>request_counts = Map.empty, last_reset_time = 0\<rparr>))
   \<and> check_rate_limit ''groq'' 3601 last_slot
       = (True, \<lparr>request_counts = [''groq'' \<mapsto> 1], last_reset_time = 3601\<rparr>)"
proof -
  let ?calls = "[(''groq'', 0::real), (''ollama_local'', 1), (''groq'', 2), (''ollama_local'', 3)]"
  note short = check_rate_limit_serial
    [where calls = ?calls and s = last_slot and service = "''groq''" and now = 3601]
  have inside: "\<forall>call\<in>set ?calls. snd call - last_reset_time last_slot \<le> 3600"
    by (simp add: last_slot_def)
  have limits: "service_rate_limit ''groq'' = 100" "service_rate_limit ''ollama_local'' = 100"
    by (simp_all add: service_rate_limit_def llm_services_def)
  have counters: "counter last_slot ''groq'' = 99" "counter last_slot ''ollama_local'' = 0"
      "counter last_slot ''huggingface'' = 0"
    by (simp_all add: counter_def last_slot_def)
  from short inside
  have len: "length (fst (check_rate_limit_calls ?calls last_slot)) = length ?calls"
    and each: "\<forall>k<length ?calls.
            fst (check_rate_limit_calls ?calls last_slot) ! k
              = (counter last_slot (fst (?calls ! k)) + int (calls_for (fst (?calls ! k)) (take k ?calls))
                   < service_rate_limit (fst (?calls ! k)))"
    and final: "\<forall>v. request_counts (snd (check_rate_limit_calls ?calls last_slot)) v
              = (if counter last_slot v < service_rate_limit v \<and> 0 < calls_for v ?calls
                 then Some (min (service_rate_limit v) (counter last_slot v + int (calls_for v ?calls)))
                 else request_counts last_slot v)"
    by blast+
  have r0: "fst (check_rate_limit_calls ?calls last_slot) ! 0 = True"
    using each [rule_format, of 0] by (simp add: limits counters calls_for_def)
  have r1: "fst (check_rate_limit_calls ?calls last_slot) ! 1 = True"
    using each [rule_format, of 1] by (simp add: limits counters calls_for_def)
  have r2: "fst (check_rate_limit_calls ?calls last_slot) ! 2 = False"
    using each [rule_format, of 2] by (simp add: limits counters calls_for_def)
  have r3: "fst (check_rate_limit_calls ?calls last_slot) ! 3 = True"
    using each [rule_format, of 3] by (simp add: limits counters calls_for_def)
  have results: "fst (check_rate_limit_calls ?calls last_slot) = [True, True, False, True]"
    using len r0 r1 r2 r3 by (intro nth_equalityI) (auto simp: less_Suc_eq numeral_eq_Suc)
  have g: "request_counts (snd (check_rate_limit_calls ?calls last_slot)) ''groq'' = Some 100"
    using final [rule_format, of "''groq''"] by (simp add: limits counters calls_for_def)
  have o: "request_counts (snd (check_rate_limit_calls ?calls last_slot)) ''ollama_local'' = Some 2"
    using final [rule_format, of "''ollama_local''"] by (simp add: limits counters calls_for_def)
  have h: "request_counts (snd (check_rate_limit_calls ?calls last_slot)) ''huggingface'' = None"
    using final [rule_format, of "''huggingface''"] by (simp add: calls_for_def last_slot_def)
  have expired: "check_rate_limit ''groq'' 3601 last_slot
       = (True, \<lparr>request_counts = [''groq'' \<mapsto> 1], last_reset_time = 3601\<rparr>)"
    using short by (simp add: last_slot_def)
  let ?fresh = "\<lparr>request_counts = Map.empty, last_reset_time = 0\<rparr>"
  note long = check_rate_limit_serial
    [where calls = alternating_calls and s = ?fresh and service = "''groq''" and t' = 3600]
  have all_inside: "\<forall>call\<in>set alternating_calls. snd call - last_reset_time ?fresh \<le> 3600"
    by (auto simp: alternating_calls_def)
  have hundred: "int (calls_for ''groq'' alternating_calls) = service_rate_limit ''groq''"
    by (simp add: alternating_calls_def calls_for_concat_replicate limits) (simp add: calls_for_def)
  from long all_inside hundred
  have full: "counter (snd (check_rate_limit_calls alternating_calls ?fresh)) ''groq''
                = service_rate_limit ''groq''"
    and refused: "check_rate_limit ''groq'' 3600 (snd (check_rate_limit_calls alternating_calls ?fresh))
                = (False, snd (check_rate_limit_calls alternating_calls ?fresh))"
    by simp_all
  show ?thesis using results g o h full refused expired by (simp add: limits)
qed

section \<open>Properties of the bounder\<close>

declare pad_scenarios.simps [simp del]

lemma pad_scenarios_eq:
  "pad_scenarios min_s story scenarios =
     scenarios @ map (\<lambda>i. generate_basic_scenario story (int i + 1))
                   [length scenarios ..< nat min_s]"
proof (induction min_s story scenarios rule: pad_scenarios.induct)
  case (1 min_s story scenarios)
  show ?case
  proof (cases "int (length scenarios) < min_s")
    case True
    then have lt: "length scenarios < nat min_s" by linarith
    have "pad_scenarios min_s story scenarios =
        pad_scenarios min_s story
          (scenarios @ [generate_basic_scenario story (int (length scenarios) + 1)])"
      using True by (subst pad_scenarios.simps) simp
    also have "\<dots> = (scenarios @ [generate_basic_scenario story (int (length scenarios) + 1)])
          @ map (\<lambda>i. generate_basic_scenario story (int i + 1))
              [Suc (length scenarios) ..< nat min_s]"
      using "1.IH" [OF True] by simp
    also have "\<dots> = scenarios @ map (\<lambda>i. generate_basic_scenario story (int i + 1))
                   [length scenarios ..< nat min_s]"
      using lt by (simp add: upt_conv_Cons)
    finally show ?thesis .
  next
    case False
    then have "nat min_s \<le> length scenarios" by linarith
    then show ?thesis using False by (subst pad_scenarios.simps) simp
  qed
qed

lemma length_pad_scenarios:
  "int (length (pad_scenarios min_s story scenarios)) = max (int (length scenarios)) min_s"
  by (simp add: pad_scenarios_eq)

lemma scenario_scores_length:
  "scenario_scores scenarios = Inr keys \<Longrightarrow> length keys = length scenarios"
  by (induction scenarios arbitrary: keys) (auto split: sum.splits)

lemma prioritize_scenarios_length:
  "prioritize_scenarios scenarios = Inr out \<Longrightarrow> length out = length scenarios"
  by (auto simp: prioritize_scenarios_def split: sum.splits dest: scenario_scores_length)

lemma length_slice_to:
  "0 \<le> n \<Longrightarrow> int (length (slice_to n xs)) = min n (int (length xs))"
  by (simp add: slice_to_def)

lemma ensure_scenario_limits_length:
  assumes "min_scenarios config \<le> max_scenarios config" and "0 \<le> max_scenarios config"
    and "ensure_scenario_limits config scenarios story = Inr out"
  shows "min_scenarios config \<le> int (length out) \<and> int (length out) \<le> max_scenarios config"
proof (cases "int (length (pad_scenarios (min_scenarios config) story scenarios)) > max_scenarios config")
  case True
  then obtain pr where pr: "prioritize_scenarios (pad_scenarios (min_scenarios config) story scenarios) = Inr pr"
    and out: "out = slice_to (max_scenarios config) pr"
    using assms(3) by (auto simp: ensure_scenario_limits_def Let_def split: sum.splits)
  have "length pr = length (pad_scenarios (min_scenarios config) story scenarios)"
    using pr by (rule prioritize_scenarios_length)
  then show ?thesis using True out assms(1,2) by (simp add: length_slice_to)
next
  case False
  then have "out = pad_scenarios (min_scenarios config) story scenarios"
    using assms(3) by (auto simp: ensure_scenario_limits_def Let_def)
  then show ?thesis using False assms(1) by (auto simp: length_pad_scenarios)
qed

lemma pad_scenarios_id:
  "min_s \<le> int (length scenarios) \<Longrightarrow> pad_scenarios min_s story scenarios = scenarios"
  by (subst pad_scenarios.simps) simp

lemma order_get_priority:
  assumes "case map_of scenario ''priority'' of Some (JArr _) \<Rightarrow> False | Some (JObj _) \<Rightarrow> False | _ \<Rightarrow> True"
  shows "order_get priority_order (dict_get scenario ''priority'' (JStr ''P3 - Medium'')) 3
       = Inr (priority_ordinal (map_of scenario ''priority''))"
proof (cases "map_of scenario ''priority''")
  case None
  then show ?thesis
    by (simp add: dict_get_def order_get_def priority_order_def priority_ordinal_def)
next
  case (Some level)
  then show ?thesis using assms
    by (cases level)
       (simp_all add: dict_get_def order_get_def priority_order_def priority_ordinal_def)
qed

lemma order_get_severity:
  assumes "case map_of scenario ''severity'' of Some (JArr _) \<Rightarrow> False | Some (JObj _) \<Rightarrow> False | _ \<Rightarrow> True"
  shows "order_get severity_order (dict_get scenario ''severity'' (JStr ''S3 - Moderate'')) 3
       = Inr (severity_ordinal (map_of scenario ''severity''))"
proof (cases "map_of scenario ''severity''")
  case None
  then show ?thesis
    by (simp add: dict_get_def order_get_def severity_order_def severity_ordinal_def)
next
  case (Some level)
  then show ?thesis using assms
    by (cases level)
       (simp_all add: dict_get_def order_get_def severity_order_def severity_ordinal_def)
qed

lemma scenario_score_importance:
  assumes "levels_hashable scenario"
  shows "scenario_score scenario = Inr (importance scenario)"
proof -
  from assms
  have p: "case map_of scenario ''priority'' of Some (JArr _) \<Rightarrow> False | Some (JObj _) \<Rightarrow> False | _ \<Rightarrow> True"
    and s: "case map_of scenario ''severity'' of Some (JArr _) \<Rightarrow> False | Some (JObj _) \<Rightarrow> False | _ \<Rightarrow> True"
    by (simp_all add: levels_hashable_def)
  show ?thesis
    by (simp add: scenario_score_def importance_def order_get_priority [OF p] order_get_severity [OF s])
qed

lemma scenario_scores_importance:
  "\<forall>s\<in>set scenarios. levels_hashable s \<Longrightarrow> scenario_scores scenarios = Inr (map importance scenarios)"
  by (induction scenarios) (simp_all add: scenario_score_importance)

lemma insort_key_decorated:
  assumes "\<forall>p\<in>set zs. fst p = f (snd p)"
  shows "map snd (insort_key fst (f x, x) zs) = insort_key f x (map snd zs)"
  using assms by (induction zs) auto

lemma sort_key_decorated:
  "map snd (sort_key fst (zip (map f xs) xs)) = sort_key f xs
   \<and> (\<forall>p\<in>set (sort_key fst (zip (map f xs) xs)). fst p = f (snd p))"
proof (induction xs)
  case Nil
  then show ?case by simp
next
  case (Cons x xs)
  let ?zs = "sort_key fst (zip (map f xs) xs)"
  have "sort_key fst (zip (map f (x # xs)) (x # xs)) = insort_key fst (f x, x) ?zs"
    by simp
  moreover have "map snd (insort_key fst (f x, x) ?zs) = insort_key f x (map snd ?zs)"
    using Cons.IH by (intro insort_key_decorated) simp
  moreover have "\<forall>p\<in>set (insort_key fst (f x, x) ?zs). fst p = f (snd p)"
    using Cons.IH by (auto simp: set_insort_key)
  ultimately show ?case using Cons.IH by simp
qed

lemma prioritize_scenarios_importance:
  assumes "\<forall>s\<in>set scenarios. levels_hashable s"
  shows "prioritize_scenarios scenarios = Inr (sort_key importance scenarios)"
  using scenario_scores_importance [OF assms] sort_key_decorated [of importance scenarios]
  by (simp add: prioritize_scenarios_def)

lemma kept_before_dropped:
  assumes "a \<in> set (take n (sort_key f xs))" and "b \<in> set (drop n (sort_key f xs))"
  shows "f a \<le> (f b :: int)"
proof -
  have "sorted_wrt (\<lambda>x y. f x \<le> f y) (take n (sort_key f xs) @ drop n (sort_key f xs))"
    using sorted_sort_key [of f xs] by (simp add: sorted_map)
  then show ?thesis using assms by (simp only: sorted_wrt_append)
qed

lemma generate_basic_scenario_template:
  "generate_basic_scenario story (int i + 1)
     = [(''title'', JStr (''Verify '' @ fields_get (story_fields story) ''summary'' ''Test Story''
                          @ (if i mod 3 = 0 then '' - Functional Test ''
                             else if i mod 3 = 1 then '' - Error Handling ''
                             else '' - Boundary Test '')
                          @ str_of_int (int i + 1))),
        (''description'', JStr ((if i mod 3 = 0 then ''Test core functionality of ''
                                 else if i mod 3 = 1 then ''Test error handling for ''
                                 else ''Test boundary conditions for '')
                                @ fields_get (story_fields story) ''summary'' ''Test Story'')),
        (''severity'', JStr (if i mod 3 = 1 then ''S2 - Major'' else ''S3 - Moderate'')),
        (''priority'', JStr (if i mod 3 = 1 then ''P2 - High'' else ''P3 - Medium'')),
        (''steps'', JArr [JStr ''1. Set up test environment'',
                          JStr ''2. Execute test steps'',
                          JStr ''3. Verify expected results'',
                          JStr ''4. Clean up test data'']),
        (''automation'', JStr ''Manual'')]"
proof -
  have m: "nat ((int i + 1 - 1) mod 3) = i mod 3"
    by (simp add: nat_mod_distrib)
  consider "i mod 3 = 0" | "i mod 3 = 1" | "i mod 3 = 2" by linarith
  then show ?thesis
  proof cases
    case 1
    then show ?thesis unfolding generate_basic_scenario_def Let_def m by simp
  next
    case 2
    then show ?thesis unfolding generate_basic_scenario_def Let_def m by simp
  next
    case 3
    then show ?thesis unfolding generate_basic_scenario_def Let_def m by simp
  qed
qed

text \<open>
  C7. With bounds \<open>min \<le> max\<close> and \<open>0 \<le> max\<close> (3 and 10 by default) and records whose
  levels can be looked up, the bounder returns a list whose length is between \<open>min\<close> and
  \<open>max\<close>. A shorter input is kept and extended to exactly \<open>min\<close> records: the record at
  position \<open>i\<close> (counted from 0) is the template for the index \<open>i + 1\<close>, which is the
  functional, the error-handling or the boundary template as \<open>i mod 3\<close> is 0, 1 or 2, with
  the story's summary and the index in its title. A longer input is sorted stably by the
  sum of the priority and severity ordinals, ascending, and cut to its first \<open>max\<close>
  records, so that no record dropped is more important than a record kept. An input
  already within the bounds is returned as it is.
\<close>

theorem ensure_scenario_limits_bounds:
  assumes "min_scenarios config \<le> max_scenarios config"
    and "0 \<le> max_scenarios config"
    and "\<forall>s\<in>set scenarios. levels_hashable s"
  shows "\<exists>out. ensure_scenario_limits config scenarios story = Inr out
     \<and> min_scenarios config \<le> int (length out) \<and> int (length out) \<le> max_scenarios config
     \<and> (int (length scenarios) < min_scenarios config \<longrightarrow>
          int (length out) = min_scenarios config
        \<and> take (length scenarios) out = scenarios
        \<and> (\<forall>i. length scenarios \<le> i \<and> int i < min_scenarios config \<longrightarrow>
              out ! i =
                [(''title'',
                  JStr (''Verify '' @ fields_get (story_fields story) ''summary'' ''Test Story''
                        @ (if i mod 3 = 0 then '' - Functional Test ''
                           else if i mod 3 = 1 then '' - Error Handling ''
                           else '' - Boundary Test '')
                        @ str_of_int (int i + 1))),
                 (''description'',
                  JStr ((if i mod 3 = 0 then ''Test core functionality of ''
                         else if i mod 3 = 1 then ''Test error handling for ''
                         else ''Test boundary conditions for '')
                        @ fields_get (story_fields story) ''summary'' ''Test Story'')),
                 (''severity'', JStr (if i mod 3 = 1 then ''S2 - Major'' else ''S3 - Moderate'')),
                 (''priority'', JStr (if i mod 3 = 1 then ''P2 - High'' else ''P3 - Medium'')),
                 (''steps'', JArr [JStr ''1. Set up test environment'',
                                   JStr ''2. Execute test steps'',
                                   JStr ''3. Verify expected results'',
                                   JStr ''4. Clean up test data'']),
                 (''automation'', JStr ''Manual'')]))
     \<and> (max_scenarios config < int (length scenarios) \<longrightarrow>
          out = take (nat (max_scenarios config)) (sort_key importance scenarios)
        \<and> (\<forall>a\<in>set out.
              \<forall>b\<in>set (drop (nat (max_scenarios config)) (sort_key importance scenarios)).
                importance a \<le> importance b))
     \<and> (min_scenarios config \<le> int (length scenarios)
          \<and> int (length scenarios) \<le> max_scenarios config \<longrightarrow> out = scenarios)"
proof -
  let ?n = "int (length scenarios)"
  let ?lo = "min_scenarios config"
  let ?hi = "max_scenarios config"
  consider (few) "?n < ?lo" | (many) "?hi < ?n" | (fits) "?lo \<le> ?n \<and> ?n \<le> ?hi"
    by linarith
  then show ?thesis
  proof cases
    case few
    let ?added = "map (\<lambda>i. generate_basic_scenario story (int i + 1))
                    [length scenarios ..< nat ?lo]"
    let ?out = "scenarios @ ?added"
    have len: "int (length ?out) = ?lo" using few by simp
    have run: "ensure_scenario_limits config scenarios story = Inr ?out"
      using few assms(1) len
      by (simp add: ensure_scenario_limits_def pad_scenarios_eq Let_def del: length_append)
    have kept: "take (length scenarios) ?out = scenarios" by simp
    have each: "?out ! i = generate_basic_scenario story (int i + 1)"
      if "length scenarios \<le> i \<and> int i < ?lo" for i
    proof -
      from that have "i - length scenarios < length [length scenarios ..< nat ?lo]" by auto
      then have "?added ! (i - length scenarios)
          = generate_basic_scenario story (int (length scenarios + (i - length scenarios)) + 1)"
        by (simp del: upt.simps)
      then show ?thesis using that by (simp add: nth_append del: upt.simps)
    qed
    show ?thesis
      apply (rule exI [of _ ?out])
      apply (intro conjI)
      subgoal by (rule run)
      subgoal using len by simp
      subgoal using len assms(1) by simp
      subgoal
        apply (intro conjI impI allI)
        subgoal by (rule len)
        subgoal by (rule kept)
        subgoal for i using each [of i] generate_basic_scenario_template [of story i] by metis
        done
      subgoal using few assms(1) by simp
      subgoal using few by simp
      done
  next
    case many
    then have pad: "pad_scenarios ?lo story scenarios = scenarios"
      using assms(1) by (intro pad_scenarios_id) simp
    let ?sorted = "sort_key importance scenarios"
    let ?out = "take (nat ?hi) ?sorted"
    have run: "ensure_scenario_limits config scenarios story = Inr ?out"
      using many assms(2) prioritize_scenarios_importance [OF assms(3)]
      by (simp add: ensure_scenario_limits_def pad slice_to_def)
    have len: "int (length ?out) = ?hi"
      using many assms(2) by simp
    have order: "\<forall>a\<in>set ?out. \<forall>b\<in>set (drop (nat ?hi) ?sorted). importance a \<le> importance b"
      by (intro ballI) (rule kept_before_dropped)
    show ?thesis
      apply (rule exI [of _ ?out])
      using run len many assms(1) order apply simp
      done
  next
    case fits
    then have "ensure_scenario_limits config scenarios story = Inr scenarios"
      by (simp add: ensure_scenario_limits_def pad_scenarios_id)
    then show ?thesis using fits by simp
  qed
qed

theorem ensure_scenario_limits_bounds_witness:
  "ensure_scenario_limits default_config eleven_records login_story
     = Inr (titled ''Check the payment'' ''P1 - Critical'' ''S1 - Critical''
            # map (\<lambda>title. [(''title'', JStr title), (''priority'', JStr ''P3 - Medium'')])
                [''Check a'', ''Check b'', ''Check c'', ''Check d'', ''Check e'',
                 ''Check f'', ''Check g'', ''Check h'', ''Check i''])
   \<and> (\<exists>out. ensure_scenario_limits default_config
               [titled ''Check the payment'' ''P1 - Critical'' ''S1 - Critical''] login_story
             = Inr out
        \<and> length out = 3
        \<and> out ! 0 = titled ''Check the payment'' ''P1 - Critical'' ''S1 - Critical''
        \<and> out ! 1 =
            [(''title'', JStr ''Verify Login - Error Handling 2''),
             (''description'', JStr ''Test error handling for Login''),
             (''severity'', JStr ''S2 - Major''),
             (''priority'', JStr ''P2 - High''),
             (''steps'', JArr [JStr ''1. Set up test environment'',
                               JStr ''2. Execute test steps'',
                               JStr ''3. Verify expected results'',
                               JStr ''4. Clean up test data'']),
             (''automation'', JStr ''Manual'')]
        \<and> out ! 2 =
            [(''title'', JStr ''Verify Login - Boundary Test 3''),
             (''description'', JStr ''Test boundary conditions for Login''),
             (''severity'', JStr ''S3 - Moderate''),
             (''priority'', JStr ''P3 - Medium''),
             (''steps'', JArr [JStr ''1. Set up test environment'',
                               JStr ''2. Execute test steps'',
                               JStr ''3. Verify expected results'',
                               JStr ''4. Clean up test data'']),
             (''automation'', JStr ''Manual'')])"
proof -
  have lo: "min_scenarios default_config \<le> max_scenarios default_config"
    and hi: "0 \<le> max_scenarios default_config"
    by (simp_all add: default_config_def)
  have h11: "\<forall>s\<in>set eleven_records. levels_hashable s"
    by (simp add: eleven_records_def titled_def levels_hashable_def)
  from ensure_scenario_limits_bounds [OF lo hi h11, of login_story]
  obtain out where run: "ensure_scenario_limits default_config eleven_records login_story = Inr out"
    and cut: "max_scenarios default_config < int (length eleven_records) \<longrightarrow>
                out = take (nat (max_scenarios default_config)) (sort_key importance eleven_records)"
    by blast
  have "sort_key importance eleven_records
      = titled ''Check the payment'' ''P1 - Critical'' ''S1 - Critical''
        # map (\<lambda>title. [(''title'', JStr title), (''priority'', JStr ''P3 - Medium'')])
            [''Check a'', ''Check b'', ''Check c'', ''Check d'', ''Check e'',
             ''Check f'', ''Check g'', ''Check h'', ''Check i'']
        @ [titled ''Check the audit log'' ''P4 - Low'' ''S4 - Low'']"
    by (simp add: eleven_records_def titled_def importance_def priority_ordinal_def
          severity_ordinal_def)
  then have first: "ensure_scenario_limits default_config eleven_records login_story
     = Inr (titled ''Check the payment'' ''P1 - Critical'' ''S1 - Critical''
            # map (\<lambda>title. [(''title'', JStr title), (''priority'', JStr ''P3 - Medium'')])
                [''Check a'', ''Check b'', ''Check c'', ''Check d'', ''Check e'',
                 ''Check f'', ''Check g'', ''Check h'', ''Check i''])"
    using run cut by (simp add: default_config_def eleven_records_def)
  let ?one = "[titled ''Check the payment'' ''P1 - Critical'' ''S1 - Critical'']"
  have h1: "\<forall>s\<in>set ?one. levels_hashable s"
    by (simp add: titled_def levels_hashable_def)
  have summary: "fields_get (story_fields login_story) ''summary'' ''Test Story'' = ''Login''"
    by (simp add: fields_get_def story_fields_def login_story_def)
  have numbers: "str_of_int 2 = ''2''" "str_of_int 3 = ''3''"
    by (simp_all add: str_of_int_def digit_char_def)
  from ensure_scenario_limits_bounds [OF lo hi h1, of login_story]
  have second: "\<exists>out. ensure_scenario_limits default_config ?one login_story = Inr out
        \<and> length out = 3
        \<and> out ! 0 = titled ''Check the payment'' ''P1 - Critical'' ''S1 - Critical''
        \<and> out ! 1 =
            [(''title'', JStr ''Verify Login - Error Handling 2''),
             (''description'', JStr ''Test error handling for Login''),
             (''severity'', JStr ''S2 - Major''),
             (''priority'', JStr ''P2 - High''),
             (''steps'', JArr [JStr ''1. Set up test environment'',
                               JStr ''2. Execute test steps'',
                               JStr ''3. Verify expected results'',
                               JStr ''4. Clean up test data'']),
             (''automation'', JStr ''Manual'')]
        \<and> out ! 2 =
            [(''title'', JStr ''Verify Login - Boundary Test 3''),
             (''description'', JStr ''Test boundary conditions for Login''),
             (''severity'', JStr ''S3 - Moderate''),
             (''priority'', JStr ''P3 - Medium''),
             (''steps'', JArr [JStr ''1. Set up test environment'',
                               JStr ''2. Execute test steps'',
                               JStr ''3. Verify expected results'',
                               JStr ''4. Clean up test data'']),
             (''automation'', JStr ''Manual'')]"
  proof -
    from ensure_scenario_limits_bounds [OF lo hi h1, of login_story]
    obtain out where r: "ensure_scenario_limits default_config ?one login_story = Inr out"
      and l: "int (length out) = min_scenarios default_config"
      and k: "take (length ?one) out = ?one"
      and t: "\<forall>i. length ?one \<le> i \<and> int i < min_scenarios default_config \<longrightarrow>
              out ! i =
                [(''title'',
                  JStr (''Verify '' @ fields_get (story_fields login_story) ''summary'' ''Test Story''
                        @ (if i mod 3 = 0 then '' - Functional Test ''
                           else if i mod 3 = 1 then '' - Error Handling ''
                           else '' - Boundary Test '')
                        @ str_of_int (int i + 1))),
                 (''description'',
                  JStr ((if i mod 3 = 0 then ''Test core functionality of ''
                         else if i mod 3 = 1 then ''Test error handling for ''
                         else ''Test boundary conditions for '')
                        @ fields_get (story_fields login_story) ''summary'' ''Test Story'')),
                 (''severity'', JStr (if i mod 3 = 1 then ''S2 - Major'' else ''S3 - Moderate'')),
                 (''priority'', JStr (if i mod 3 = 1 then ''P2 - High'' else ''P3 - Medium'')),
                 (''steps'', JArr [JStr ''1. Set up test environment'',
                                   JStr ''2. Execute test steps'',
                                   JStr ''3. Verify expected results'',
                                   JStr ''4. Clean up test data'']),
                 (''automation'', JStr ''Manual'')]"
      by (auto simp: default_config_def)
    have l3: "length out = 3" using l by (simp add: default_config_def)
    have o0: "out ! 0 = titled ''Check the payment'' ''P1 - Critical'' ''S1 - Critical''"
      using k l3 by (cases out) simp_all
    have o1: "out ! 1 = [(''title'', JStr ''Verify Login - Error Handling 2''),
             (''description'', JStr ''Test error handling for Login''),
             (''severity'', JStr ''S2 - Major''),
             (''priority'', JStr ''P2 - High''),
             (''steps'', JArr [JStr ''1. Set up test environment'',
                               JStr ''2. Execute test steps'',
                               JStr ''3. Verify expected results'',
                               JStr ''4. Clean up test data'']),
             (''automation'', JStr ''Manual'')]"
      using t [rule_format, of 1] by (simp add: default_config_def summary numbers)
    have o2: "out ! 2 = [(''title'', JStr ''Verify Login - Boundary Test 3''),
             (''description'', JStr ''Test boundary conditions for Login''),
             (''severity'', JStr ''S3 - Moderate''),
             (''priority'', JStr ''P3 - Medium''),
             (''steps'', JArr [JStr ''1. Set up test environment'',
                               JStr ''2. Execute test steps'',
                               JStr ''3. Verify expected results'',
                               JStr ''4. Clean up test data'']),
             (''automation'', JStr ''Manual'')]"
      using t [rule_format, of 2] by (simp add: default_config_def summary numbers)
    show ?thesis using r l3 o0 o1 o2 by blast
  qed
  show ?thesis using first second by blast
qed

text \<open>
  C8. With bounds \<open>min \<le> max\<close> and \<open>0 \<le> max\<close>, the bounder applied to a list it has
  returned gives that list back.
\<close>

theorem ensure_scenario_limits_idempotent:
  assumes "min_scenarios config \<le> max_scenarios config" and "0 \<le> max_scenarios config"
    and "ensure_scenario_limits config scenarios story = Inr out"
  shows "ensure_scenario_limits config out story = Inr out"
proof -
  from ensure_scenario_limits_length [OF assms]
  have b: "min_scenarios config \<le> int (length out)" "int (length out) \<le> max_scenarios config"
    by simp_all
  show ?thesis
    using b by (simp add: ensure_scenario_limits_def pad_scenarios_id)
qed

theorem ensure_scenario_limits_idempotent_witness:
  "ensure_scenario_limits default_config [] []
     = Inr (map (generate_basic_scenario []) [1, 2, 3])
   \<and> ensure_scenario_limits default_config (map (generate_basic_scenario []) [1, 2, 3]) []
     = Inr (map (generate_basic_scenario []) [1, 2, 3])"
proof -
  have first: "ensure_scenario_limits default_config [] []
      = Inr (map (generate_basic_scenario []) [1, 2, 3])"
    by (simp add: ensure_scenario_limits_def default_config_def pad_scenarios_eq upt_rec)
  have lo: "min_scenarios default_config \<le> max_scenarios default_config"
    and hi: "0 \<le> max_scenarios default_config"
    by (simp_all add: default_config_def)
  from ensure_scenario_limits_idempotent [OF lo hi first] first show ?thesis by simp
qed

section \<open>Properties of the cache\<close>

lemmas offline_defs =
  offline_env_def offline_lib_def blank_story_def fresh_client_def used_client_def
  generate_comprehensive_test_scenarios_def generate_cache_key_def generate_uncached_def
  ultra_fast_generation_def groq_ultra_fast_def get_fallback_scenarios_def
  cursor_generate_test_scenarios_def validate_and_enhance_scenarios_def
  remove_duplicate_scenarios_def story_fields_def fields_get_def llm_services_def
  check_rate_limit_def service_rate_limit_def

lemma first_call_blank:
  "generate_comprehensive_test_scenarios offline_env blank_story fresh_client = (''[]'', used_client)"
  by (simp add: offline_defs Let_def)

lemma first_call_long:
  "generate_comprehensive_test_scenarios offline_env (long_story ''x'') fresh_client
     = (''[]'', long_client)"
  by (simp add: offline_defs long_story_def long_client_def Let_def)

text \<open>
  C9. With caching enabled, let a first call for a story return \<open>result\<close> and leave the
  state \<open>s1\<close>. If the key was already cached, or the generation did not raise, then
  \<open>result\<close> is stored in \<open>s1\<close> under the story's key. And once it is stored there, a
  second call for the same story, whatever the clock, the token and the network then are,
  returns \<open>result\<close> and leaves \<open>s1\<close> as it is: nothing is generated, no budget is used.
\<close>

theorem cached_second_call:
  assumes "cache_enabled s0"
    and "generate_comprehensive_test_scenarios env story s0 = (result, s1)"
    and "md5_hexdigest env' = md5_hexdigest env"
  shows "(scenario_cache s0 (generate_cache_key (md5_hexdigest env) story) \<noteq> None
            \<or> (\<exists>r. fst (generate_uncached env story (rate s0)) = Inr r)
          \<longrightarrow> scenario_cache s1 (generate_cache_key (md5_hexdigest env) story) = Some result)
       \<and> (scenario_cache s1 (generate_cache_key (md5_hexdigest env) story) = Some result
          \<longrightarrow> generate_comprehensive_test_scenarios env' story s1 = (result, s1))"
proof -
  have en: "cache_enabled s1"
    using assms(1,2)
    by (auto simp: generate_comprehensive_test_scenarios_def Let_def
             split: option.splits sum.splits prod.splits)
  have a: "scenario_cache s0 (generate_cache_key (md5_hexdigest env) story) \<noteq> None
            \<or> (\<exists>r. fst (generate_uncached env story (rate s0)) = Inr r)
          \<longrightarrow> scenario_cache s1 (generate_cache_key (md5_hexdigest env) story) = Some result"
    using assms(1,2)
    by (auto simp: generate_comprehensive_test_scenarios_def Let_def
             split: option.splits sum.splits prod.splits)
  have b: "scenario_cache s1 (generate_cache_key (md5_hexdigest env) story) = Some result
          \<longrightarrow> generate_comprehensive_test_scenarios env' story s1 = (result, s1)"
    using en assms(3) by (simp add: generate_comprehensive_test_scenarios_def Let_def)
  from a b show ?thesis by blast
qed

theorem cached_second_call_witness:
  "generate_comprehensive_test_scenarios offline_env blank_story fresh_client = (''[]'', used_client)
   \<and> generate_comprehensive_test_scenarios
        (offline_env\<lparr>groq_token := ''key'', time_now := 7200\<rparr>) blank_story used_client
       = (''[]'', used_client)"
proof -
  have en: "cache_enabled fresh_client" by (simp add: fresh_client_def)
  have md: "md5_hexdigest (offline_env\<lparr>groq_token := ''key'', time_now := 7200\<rparr>) = md5_hexdigest offline_env"
    by simp
  have st: "scenario_cache used_client (generate_cache_key (md5_hexdigest offline_env) blank_story) = Some ''[]''"
    by (simp add: offline_defs Let_def)
  from cached_second_call [OF en first_call_blank md] st first_call_blank
  show ?thesis by simp
qed

text \<open>
  C10. Two stories whose summaries agree on their first 100 characters have the same
  cache key, whatever else they contain. With caching enabled, once a call for the first
  has stored its result under that key, a call for the second returns that result and
  leaves the state as it is.
\<close>

theorem cache_key_summary_prefix:
  assumes "take 100 (story_summary a) = take 100 (story_summary b)"
  shows "generate_cache_key md5 a = generate_cache_key md5 b
       \<and> (cache_enabled s0
            \<and> generate_comprehensive_test_scenarios env a s0 = (result, s1)
            \<and> scenario_cache s1 (generate_cache_key (md5_hexdigest env) a) = Some result
            \<and> md5_hexdigest env' = md5_hexdigest env
          \<longrightarrow> generate_comprehensive_test_scenarios env' b s1 = (result, s1))"
proof -
  have k: "\<And>md5. generate_cache_key md5 a = generate_cache_key md5 b"
    using assms by (simp add: generate_cache_key_def story_summary_def Let_def)
  have "cache_enabled s0
            \<and> generate_comprehensive_test_scenarios env a s0 = (result, s1)
            \<and> scenario_cache s1 (generate_cache_key (md5_hexdigest env) a) = Some result
            \<and> md5_hexdigest env' = md5_hexdigest env
          \<longrightarrow> generate_comprehensive_test_scenarios env' b s1 = (result, s1)"
  proof
    assume h: "cache_enabled s0
            \<and> generate_comprehensive_test_scenarios env a s0 = (result, s1)
            \<and> scenario_cache s1 (generate_cache_key (md5_hexdigest env) a) = Some result
            \<and> md5_hexdigest env' = md5_hexdigest env"
    then have en: "cache_enabled s1"
      by (auto simp: generate_comprehensive_test_scenarios_def Let_def
               split: option.splits sum.splits prod.splits)
    have "scenario_cache s1 (generate_cache_key (md5_hexdigest env') b) = Some result"
      using h k [of "md5_hexdigest env", symmetric] by simp
    then show "generate_comprehensive_test_scenarios env' b s1 = (result, s1)"
      using en by (simp add: generate_comprehensive_test_scenarios_def Let_def)
  qed
  with k show ?thesis by blast
qed

theorem cache_key_summary_prefix_witness:
  "generate_cache_key (md5_hexdigest offline_env) (long_story ''x'')
     = generate_cache_key (md5_hexdigest offline_env) (long_story ''y'')
   \<and> generate_comprehensive_test_scenarios offline_env (long_story ''x'') fresh_client
     = (''[]'', long_client)
   \<and> generate_comprehensive_test_scenarios offline_env (long_story ''y'') long_client
     = (''[]'', long_client)"
proof -
  have pre: "take 100 (story_summary (long_story ''x'')) = take 100 (story_summary (long_story ''y''))"
    by (simp add: story_summary_def long_story_def story_fields_def fields_get_def)
  have en: "cache_enabled fresh_client" by (simp add: fresh_client_def)
  have st: "scenario_cache long_client
              (generate_cache_key (md5_hexdigest offline_env) (long_story ''x'')) = Some ''[]''"
    by (simp add: offline_defs long_story_def long_client_def Let_def)
  from cache_key_summary_prefix
         [OF pre, of "md5_hexdigest offline_env" fresh_client offline_env "''[]''" long_client offline_env]
       en first_call_long st
  show ?thesis by simp
qed

section \<open>Properties of the entry point\<close>

lemma generate_test_scenarios_basic_branch:
  assumes "generate_comprehensive_test_scenarios env story s = (enhanced_result, s1)"
    and "enhanced_accepted env enhanced_result \<noteq> Inr True"
    and "fallback_accepted env (cursor_generate_test_scenarios env story) \<noteq> Inr True"
  shows "generate_test_scenarios env story s = (Inl AttributeError, s1)"
  using assms
  by (auto simp: generate_test_scenarios_def generate_basic_scenarios_def Let_def
           split: sum.splits bool.splits)

text \<open>
  C1. The entry point on a story whose summary and description are empty, without a Groq
  token: both tiers produce the text \<^verbatim>\<open>[]\<close>, the fallback text is accepted without a
  look at what it decodes to, and the entry point returns it; it decodes to the empty list.
\<close>

theorem generate_test_scenarios_empty_result:
  "generate_test_scenarios offline_env blank_story fresh_client = (Inr ''[]'', used_client)
   \<and> json_loads (library offline_env) ''[]'' = Inr (JArr [])"
proof -
  have c: "cursor_generate_test_scenarios offline_env blank_story = ''[]''"
    by (simp add: offline_defs Let_def)
  have e: "enhanced_accepted offline_env ''[]'' = Inr False"
    by (simp add: enhanced_accepted_def offline_env_def offline_lib_def)
  have f: "fallback_accepted offline_env ''[]'' = Inr True"
    by (simp add: fallback_accepted_def offline_env_def offline_lib_def)
  have l: "json_loads (library offline_env) ''[]'' = Inr (JArr [])"
    by (simp add: offline_env_def offline_lib_def)
  show ?thesis
    by (simp add: generate_test_scenarios_def first_call_blank c e f l)
qed

section \<open>Properties of the deduplication\<close>

lemmas letter_defs = upper_chars_def lower_chars_def latin_upper_chars_def latin_lower_chars_def

lemma letters_distinct:
  "distinct (upper_chars @ latin_upper_chars @ lower_chars @ latin_lower_chars)"
  by (simp add: letter_defs)

lemma py_lower_changes:
  assumes "py_lower c \<noteq> c"
  shows "c \<in> set (upper_chars @ latin_upper_chars)
       \<and> py_lower c \<in> set (lower_chars @ latin_lower_chars)"
proof -
  from assms obtain l
    where m: "map_of (zip (upper_chars @ latin_upper_chars) (lower_chars @ latin_lower_chars)) c = Some l"
      and l: "py_lower c = l"
    by (auto simp: py_lower_def split: option.splits)
  from map_of_SomeD [OF m] show ?thesis
    using l by (auto dest: set_zip_leftD set_zip_rightD)
qed

lemma py_lower_small:
  assumes "l \<in> set (lower_chars @ latin_lower_chars)"
  shows "py_lower l = l"
proof -
  have "l \<notin> set (upper_chars @ latin_upper_chars)"
    using assms letters_distinct by auto
  then have "map_of (zip (upper_chars @ latin_upper_chars) (lower_chars @ latin_lower_chars)) l = None"
    by (simp add: map_of_eq_None_iff letter_defs del: set_append)
  then show ?thesis by (simp add: py_lower_def)
qed

lemma py_lower_idem: "py_lower (py_lower c) = py_lower c"
  using py_lower_changes [of c] py_lower_small [of "py_lower c"] by (cases "py_lower c = c") auto

lemma letters_not_space:
  "c \<in> set (upper_chars @ latin_upper_chars @ lower_chars @ latin_lower_chars) \<Longrightarrow> \<not> isspace c"
  by (auto simp: letter_defs isspace_def)

lemma letters_not_marker:
  "c \<in> set (upper_chars @ latin_upper_chars @ lower_chars @ latin_lower_chars) \<Longrightarrow> \<not> is_marker c"
  by (auto simp: letter_defs is_marker_def)

lemma isspace_py_lower: "isspace (py_lower c) = isspace c"
  using py_lower_changes [of c] letters_not_space [of c] letters_not_space [of "py_lower c"]
  by (cases "py_lower c = c") auto

lemma is_marker_lower: "is_marker (py_lower c) = is_marker c"
  using py_lower_changes [of c] letters_not_marker [of c] letters_not_marker [of "py_lower c"]
  by (cases "py_lower c = c") auto

lemma str_lower_idem: "str_lower (str_lower s) = str_lower s"
  by (simp add: str_lower_def py_lower_idem)

lemma dropWhile_isspace_lower:
  "dropWhile isspace (map py_lower s) = map py_lower (dropWhile isspace s)"
  by (induction s) (simp_all add: isspace_py_lower)

lemma str_lower_strip: "str_lower (str_strip s) = str_strip (str_lower s)"
  by (simp add: str_lower_def str_strip_def rev_map dropWhile_isspace_lower)

lemma split_words_spaces:
  "\<forall>c\<in>set ws. isspace c \<Longrightarrow> split_words cur ws = (if cur = [] then [] else [rev cur])"
  by (induction ws arbitrary: cur) auto

lemma split_words_trailing:
  "\<forall>c\<in>set ws. isspace c \<Longrightarrow> split_words cur (s @ ws) = split_words cur s"
  by (induction s arbitrary: cur) (simp_all add: split_words_spaces)

lemma split_words_leading:
  "split_words [] (dropWhile isspace s) = split_words [] s"
  by (induction s) simp_all

lemma strip_trailing_decomp:
  "\<exists>ws. (\<forall>c\<in>set ws. isspace c) \<and> s = rev (dropWhile isspace (rev s)) @ ws"
proof -
  have "rev s = takeWhile isspace (rev s) @ dropWhile isspace (rev s)" by simp
  then have "s = rev (dropWhile isspace (rev s)) @ rev (takeWhile isspace (rev s))"
    by (metis rev_append rev_rev_ident)
  moreover have "\<forall>c\<in>set (rev (takeWhile isspace (rev s))). isspace c"
    by (auto dest: set_takeWhileD)
  ultimately show ?thesis by blast
qed

lemma str_split_strip: "str_split (str_strip s) = str_split s"
proof -
  obtain ws where ws: "\<forall>c\<in>set ws. isspace c"
    and d: "dropWhile isspace s = rev (dropWhile isspace (rev (dropWhile isspace s))) @ ws"
    using strip_trailing_decomp [of "dropWhile isspace s"] by blast
  have "split_words [] (str_strip s) = split_words [] (str_strip s @ ws)"
    using ws by (simp add: split_words_trailing)
  also have "\<dots> = split_words [] (dropWhile isspace s)"
    using d by (simp add: str_strip_def)
  also have "\<dots> = split_words [] s" by (rule split_words_leading)
  finally show ?thesis by (simp add: str_split_def)
qed

lemma similarity_is_jaccard:
  "calculate_similarity text1 text2
     = jaccard (set (str_split (str_lower text1))) (set (str_split (str_lower text2)))"
proof -
  have "card (set (str_split (str_lower text1)) \<union> set (str_split (str_lower text2))) > 0"
    if "set (str_split (str_lower text1)) \<noteq> {}"
    using that by (simp add: card_gt_0_iff)
  then show ?thesis
    by (auto simp: calculate_similarity_def jaccard_def Let_def)
qed

lemma key_similarity:
  assumes "has_text_title a" and "has_text_title b"
  shows "calculate_similarity (title_key a) (title_key b)
       = jaccard (title_tokens a) (title_tokens b)"
  using assms
  by (auto simp: similarity_is_jaccard has_text_title_def title_key_def title_tokens_def
                 str_lower_strip str_lower_idem str_split_strip split: json.splits)

lemma jaccard_commute: "jaccard A B = jaccard B A"
  by (simp add: jaccard_def Int_commute Un_commute disj_commute)

text \<open>One pass of the loop body, for a record with a text title.\<close>

lemma remove_duplicates_from_step:
  assumes "has_text_title x" and "\<forall>u\<in>set unique. has_text_title u"
  shows "remove_duplicates_from (x # xs) unique (title_key ` set unique)
       = (if \<exists>u\<in>set unique. near_duplicates u x
          then remove_duplicates_from xs unique (title_key ` set unique)
          else remove_duplicates_from xs (unique @ [x]) (title_key ` set (unique @ [x])))"
proof -
  obtain t where t: "dict_get x ''title'' (JStr []) = JStr t"
    using assms(1) by (auto simp: has_text_title_def split: json.splits)
  then have k: "title_key x = str_strip (str_lower t)"
    by (simp add: title_key_def)
  have "(\<exists>seen_title\<in>title_key ` set unique. calculate_similarity (title_key x) seen_title > 8 / 10)
      = (\<exists>u\<in>set unique. near_duplicates u x)"
    using assms by (auto simp: key_similarity near_duplicates_def jaccard_commute)
  then show ?thesis using t k by (auto simp: Let_def)
qed

lemma remove_duplicates_from_text:
  "remove_duplicates_from xs unique seen = Inr out \<Longrightarrow> \<forall>s\<in>set xs. has_text_title s"
proof (induction xs arbitrary: unique seen)
  case Nil
  then show ?case by simp
next
  case (Cons x xs)
  from Cons.prems obtain t where t: "dict_get x ''title'' (JStr []) = JStr t"
    by (auto split: json.splits)
  then have "has_text_title x" by (simp add: has_text_title_def)
  moreover have "\<forall>s\<in>set xs. has_text_title s"
    using Cons.prems t Cons.IH by (auto simp: Let_def split: if_splits)
  ultimately show ?case by simp
qed

lemma remove_duplicates_from_total:
  "\<forall>s\<in>set xs. has_text_title s \<Longrightarrow> \<exists>out. remove_duplicates_from xs unique seen = Inr out"
proof (induction xs arbitrary: unique seen)
  case Nil
  then show ?case by simp
next
  case (Cons x xs)
  then obtain t where t: "dict_get x ''title'' (JStr []) = JStr t"
    by (auto simp: has_text_title_def split: json.splits)
  show ?case using Cons t by (simp add: Let_def)
qed

lemma remove_duplicates_from_invariant:
  assumes "remove_duplicates_from xs unique (title_key ` set unique) = Inr out"
    and "\<forall>u\<in>set unique. has_text_title u"
  shows "\<exists>added. out = unique @ added \<and> subseq added xs
          \<and> (\<forall>u\<in>set out. has_text_title u)
          \<and> (sorted_wrt (\<lambda>a b. \<not> near_duplicates a b) unique
               \<longrightarrow> sorted_wrt (\<lambda>a b. \<not> near_duplicates a b) out)"
  using assms
proof (induction xs arbitrary: unique)
  case Nil
  then show ?case by simp
next
  case (Cons x xs)
  have tx: "has_text_title x"
    using remove_duplicates_from_text [OF Cons.prems(1)] by simp
  note step = remove_duplicates_from_step [OF tx Cons.prems(2), of xs]
  show ?case
  proof (cases "\<exists>u\<in>set unique. near_duplicates u x")
    case True
    then have "remove_duplicates_from xs unique (title_key ` set unique) = Inr out"
      using Cons.prems(1) step by simp
    from Cons.IH [OF this Cons.prems(2)]
    obtain added where a: "out = unique @ added" "subseq added xs"
        "\<forall>u\<in>set out. has_text_title u"
        "sorted_wrt (\<lambda>a b. \<not> near_duplicates a b) unique
               \<longrightarrow> sorted_wrt (\<lambda>a b. \<not> near_duplicates a b) out"
      by blast
    have "subseq added (x # xs)" using a(2) by (rule list_emb_Cons)
    then show ?thesis using a by blast
  next
    case False
    then have r: "remove_duplicates_from xs (unique @ [x]) (title_key ` set (unique @ [x])) = Inr out"
      using Cons.prems(1) step by simp
    have t: "\<forall>u\<in>set (unique @ [x]). has_text_title u"
      using tx Cons.prems(2) by simp
    from Cons.IH [OF r t]
    obtain added where a: "out = (unique @ [x]) @ added" "subseq added xs"
        "\<forall>u\<in>set out. has_text_title u"
        "sorted_wrt (\<lambda>a b. \<not> near_duplicates a b) (unique @ [x])
               \<longrightarrow> sorted_wrt (\<lambda>a b. \<not> near_duplicates a b) out"
      by blast
    have o: "out = unique @ (x # added)" using a(1) by simp
    have s: "subseq (x # added) (x # xs)" using a(2) by simp
    have "sorted_wrt (\<lambda>a b. \<not> near_duplicates a b) unique
               \<longrightarrow> sorted_wrt (\<lambda>a b. \<not> near_duplicates a b) out"
      using a(4) False by (simp add: sorted_wrt_append)
    then show ?thesis using o s a(3) by blast
  qed
qed

lemma remove_duplicates_from_append:
  assumes "\<forall>u\<in>set unique. has_text_title u"
  shows "remove_duplicates_from (xs @ ys) unique (title_key ` set unique)
       = (case remove_duplicates_from xs unique (title_key ` set unique) of
            Inl e \<Rightarrow> Inl e
          | Inr kept \<Rightarrow> remove_duplicates_from ys kept (title_key ` set kept))"
  using assms
proof (induction xs arbitrary: unique)
  case Nil
  then show ?case by simp
next
  case (Cons x xs)
  show ?case
  proof (cases "has_text_title x")
    case True
    note step = remove_duplicates_from_step [OF True Cons.prems]
    have t: "\<forall>u\<in>set (unique @ [x]). has_text_title u"
      using True Cons.prems by simp
    show ?thesis
      using step [of "xs @ ys"] step [of xs] Cons.IH [OF Cons.prems] Cons.IH [OF t]
      by (simp del: remove_duplicates_from.simps)
  next
    case False
    then have "\<forall>t. dict_get x ''title'' (JStr []) \<noteq> JStr t"
      by (auto simp: has_text_title_def split: json.splits)
    then show ?thesis by (auto split: json.splits)
  qed
qed

lemma remove_duplicate_scenarios_prefix:
  assumes out: "remove_duplicate_scenarios scenarios = Inr out" and n: "n < length scenarios"
  shows "\<exists>kept. remove_duplicate_scenarios (take n scenarios) = Inr kept \<and> prefix kept out
          \<and> remove_duplicate_scenarios (take (Suc n) scenarios)
              = Inr (if \<exists>k\<in>set kept. near_duplicates k (scenarios ! n) then kept
                     else kept @ [scenarios ! n])"
proof -
  let ?x = "scenarios ! n"
  have e: "\<forall>u\<in>set ([]::pydict list). has_text_title u" by simp
  have tx: "has_text_title ?x"
    using remove_duplicates_from_text [of scenarios "[]" "{}" out] out n
    by (simp add: remove_duplicate_scenarios_def)
  have split: "scenarios = take n scenarios @ drop n scenarios" by simp
  have "remove_duplicates_from (take n scenarios @ drop n scenarios) [] (title_key ` set [])
      = (case remove_duplicates_from (take n scenarios) [] (title_key ` set []) of
            Inl e \<Rightarrow> Inl e
          | Inr kept \<Rightarrow> remove_duplicates_from (drop n scenarios) kept (title_key ` set kept))"
    by (rule remove_duplicates_from_append [OF e])
  then obtain kept where kept: "remove_duplicates_from (take n scenarios) [] {} = Inr kept"
    and rest: "remove_duplicates_from (drop n scenarios) kept (title_key ` set kept) = Inr out"
    using out by (auto simp: remove_duplicate_scenarios_def split: sum.splits)
  from remove_duplicates_from_invariant [of "take n scenarios" "[]" kept] kept
  have tk: "\<forall>u\<in>set kept. has_text_title u" by auto
  from remove_duplicates_from_invariant [OF rest tk]
  have pre: "prefix kept out" by (auto simp: prefix_def)
  have "remove_duplicates_from (take n scenarios @ [?x]) [] (title_key ` set [])
      = (case remove_duplicates_from (take n scenarios) [] (title_key ` set []) of
            Inl e \<Rightarrow> Inl e
          | Inr kept \<Rightarrow> remove_duplicates_from [?x] kept (title_key ` set kept))"
    by (rule remove_duplicates_from_append [OF e])
  then have "remove_duplicates_from (take (Suc n) scenarios) [] {}
      = remove_duplicates_from [?x] kept (title_key ` set kept)"
    using kept n by (simp add: take_Suc_conv_app_nth)
  also have "\<dots> = Inr (if \<exists>k\<in>set kept. near_duplicates k ?x then kept else kept @ [?x])"
    using remove_duplicates_from_step [OF tx tk, of "[]"] by simp
  finally show ?thesis
    using kept pre by (simp add: remove_duplicate_scenarios_def)
qed

lemma tokens_login:
  "str_split (str_lower ''check login'') = [''check'', ''login'']"
  "str_split (str_lower ''check  login'') = [''check'', ''login'']"
  "str_split (str_lower ''check logout'') = [''check'', ''logout'']"
  by (simp_all add: str_split_def str_lower_def py_lower_def letter_defs isspace_def)

lemma keys_login:
  "str_strip (str_lower ''Check login'') = ''check login''"
  "str_strip (str_lower '' check  LOGIN '') = ''check  login''"
  "str_strip (str_lower ''Check logout'') = ''check logout''"
  by (simp_all add: str_strip_def str_lower_def py_lower_def letter_defs isspace_def)

lemma similarity_login:
  "calculate_similarity ''check  login'' ''check login'' = 1"
  "calculate_similarity ''check logout'' ''check login'' = 1 / 3"
proof -
  have u: "{''check'', ''login''} \<union> {''check'', ''logout''} = {''check'', ''login'', ''logout''}"
    by auto
  have i: "{''check'', ''logout''} \<inter> {''check'', ''login''} = {''check''}"
    by auto
  show "calculate_similarity ''check  login'' ''check login'' = 1"
    by (simp add: calculate_similarity_def tokens_login Let_def)
  show "calculate_similarity ''check logout'' ''check login'' = 1 / 3"
    using u i by (simp add: calculate_similarity_def tokens_login Let_def Un_commute)
qed

lemma login_records_deduplicated:
  "remove_duplicate_scenarios login_records
     = Inr [[(''title'', JStr ''Check login'')], [(''title'', JStr ''Check logout'')]]"
  by (simp add: remove_duplicate_scenarios_def login_records_def dict_get_def keys_login
        similarity_login Let_def)

text \<open>
  Accented letters and the no-break space: a title that differs from an earlier
  one only in the case of its first letter, E with acute accent (0xC9 and 0xE9), is
  dropped, and a no-break space (0xA0) separates two words.
\<close>

lemma calculate_similarity_same:
  assumes "str_split (str_lower t) \<noteq> []"
  shows "calculate_similarity t t = 1"
proof -
  have "card (set (str_split (str_lower t))) > 0"
    using assms by (simp add: card_gt_0_iff)
  then show ?thesis using assms by (simp add: calculate_similarity_def Let_def)
qed

lemma tokens_latin:
  "str_split (''check'' @ CHR 0xA0 # ''login'') = [''check'', ''login'']"
  "str_split (str_lower (CHR 0xC9 # ''cole test plan'')) = [CHR 0xE9 # ''cole'', ''test'', ''plan'']"
  by (simp_all add: str_split_def str_lower_def py_lower_def letter_defs isspace_def)

lemma keys_latin:
  "str_strip (str_lower (CHR 0xC9 # ''cole test plan'')) = CHR 0xE9 # ''cole test plan''"
  "str_strip (str_lower (CHR 0xE9 # ''cole test plan'')) = CHR 0xE9 # ''cole test plan''"
  by (simp_all add: str_strip_def str_lower_def py_lower_def letter_defs isspace_def)

lemma latin_records_deduplicated:
  "remove_duplicate_scenarios
     [[(''title'', JStr (CHR 0xC9 # ''cole test plan''))],
      [(''title'', JStr (CHR 0xE9 # ''cole test plan''))]]
     = Inr [[(''title'', JStr (CHR 0xC9 # ''cole test plan''))]]"
proof -
  have "str_split (str_lower (CHR 0xE9 # ''cole test plan'')) \<noteq> []"
    by (simp add: str_split_def str_lower_def py_lower_def letter_defs isspace_def)
  then have "calculate_similarity (CHR 0xE9 # ''cole test plan'') (CHR 0xE9 # ''cole test plan'') = 1"
    by (rule calculate_similarity_same)
  then show ?thesis
    by (simp add: remove_duplicate_scenarios_def dict_get_def keys_latin Let_def)
qed

text \<open>
  C6. Deduplication returns a list whenever every title is a string or absent. What it
  returns is a subsequence of its input that begins with the first input record; any two
  records of it have titles whose lower-cased word sets have a Jaccard index of at most
  0.8; and it is built first-seen-wins: the records kept from the first \<open>n\<close> inputs are a
  prefix of the output, and input \<open>n\<close> is appended to them exactly when its index with
  each of them is at most 0.8.
\<close>

theorem remove_duplicate_scenarios_first_seen:
  "((\<forall>s\<in>set scenarios. has_text_title s) \<longrightarrow>
        (\<exists>kept. remove_duplicate_scenarios scenarios = Inr kept))
   \<and> (remove_duplicate_scenarios scenarios = Inr out \<longrightarrow>
        subseq out scenarios
      \<and> (scenarios \<noteq> [] \<longrightarrow> out \<noteq> [] \<and> hd out = hd scenarios)
      \<and> (\<forall>i j. i < j \<and> j < length out \<longrightarrow>
            jaccard (title_tokens (out ! i)) (title_tokens (out ! j)) \<le> 8 / 10)
      \<and> (\<forall>n<length scenarios.
            \<exists>kept. remove_duplicate_scenarios (take n scenarios) = Inr kept \<and> prefix kept out
              \<and> remove_duplicate_scenarios (take (Suc n) scenarios)
                  = Inr (if \<exists>k\<in>set kept. jaccard (title_tokens k) (title_tokens (scenarios ! n)) > 8 / 10
                         then kept else kept @ [scenarios ! n])))"
proof (intro conjI impI)
  assume "\<forall>s\<in>set scenarios. has_text_title s"
  then show "\<exists>kept. remove_duplicate_scenarios scenarios = Inr kept"
    unfolding remove_duplicate_scenarios_def by (rule remove_duplicates_from_total)
next
  assume out: "remove_duplicate_scenarios scenarios = Inr out"
  then have run: "remove_duplicates_from scenarios [] (title_key ` set []) = Inr out"
    by (simp add: remove_duplicate_scenarios_def)
  from remove_duplicates_from_invariant [OF run]
  have sub: "subseq out scenarios"
    and ok: "sorted_wrt (\<lambda>a b. \<not> near_duplicates a b) out"
    by auto
  show "subseq out scenarios" by (rule sub)
  show "\<forall>i j. i < j \<and> j < length out \<longrightarrow>
            jaccard (title_tokens (out ! i)) (title_tokens (out ! j)) \<le> 8 / 10"
    using ok by (auto simp: sorted_wrt_iff_nth_less near_duplicates_def not_less)
  show "\<forall>n<length scenarios.
            \<exists>kept. remove_duplicate_scenarios (take n scenarios) = Inr kept \<and> prefix kept out
              \<and> remove_duplicate_scenarios (take (Suc n) scenarios)
                  = Inr (if \<exists>k\<in>set kept. jaccard (title_tokens k) (title_tokens (scenarios ! n)) > 8 / 10
                         then kept else kept @ [scenarios ! n])"
    using remove_duplicate_scenarios_prefix [OF out]
    unfolding near_duplicates_def by blast
  have first: "out \<noteq> [] \<and> hd out = hd scenarios" if ne: "scenarios \<noteq> []"
  proof -
    have "0 < length scenarios" using ne by simp
    from remove_duplicate_scenarios_prefix [OF out this]
    obtain kept where k: "remove_duplicate_scenarios (take 0 scenarios) = Inr kept"
      and p: "remove_duplicate_scenarios (take (Suc 0) scenarios)
              = Inr (if \<exists>k\<in>set kept. near_duplicates k (scenarios ! 0) then kept
                     else kept @ [scenarios ! 0])"
      by blast
    from k have "kept = []" by (simp add: remove_duplicate_scenarios_def)
    with p have one: "remove_duplicate_scenarios (take (Suc 0) scenarios) = Inr [scenarios ! 0]"
      by simp
    show ?thesis
    proof (cases "length scenarios = 1")
      case True
      then have "take (Suc 0) scenarios = scenarios" by simp
      with one out have "out = [scenarios ! 0]" by simp
      then show ?thesis using ne by (simp add: hd_conv_nth)
    next
      case False
      then have "Suc 0 < length scenarios" using ne by (cases scenarios) auto
      from remove_duplicate_scenarios_prefix [OF out this]
      obtain kept1 where "remove_duplicate_scenarios (take (Suc 0) scenarios) = Inr kept1"
        and "prefix kept1 out"
        by blast
      with one have "prefix [scenarios ! 0] out" by simp
      then show ?thesis using ne by (auto simp: prefix_def hd_conv_nth)
    qed
  qed
  show "out \<noteq> []" if "scenarios \<noteq> []" using first [OF that] by simp
  show "hd out = hd scenarios" if "scenarios \<noteq> []" using first [OF that] by simp
qed

theorem remove_duplicate_scenarios_first_seen_witness:
  "remove_duplicate_scenarios login_records
     = Inr [[(''title'', JStr ''Check login'')], [(''title'', JStr ''Check logout'')]]
   \<and> subseq [[(''title'', JStr ''Check login'')], [(''title'', JStr ''Check logout'')]] login_records
   \<and> jaccard (title_tokens [(''title'', JStr ''Check login'')])
              (title_tokens [(''title'', JStr ''Check logout'')]) \<le> 8 / 10
   \<and> remove_duplicate_scenarios (take 2 login_records) = Inr [[(''title'', JStr ''Check login'')]]"
proof -
  note t = remove_duplicate_scenarios_first_seen
    [of login_records "[[(''title'', JStr ''Check login'')], [(''title'', JStr ''Check logout'')]]"]
  have len: "length login_records = 3" by (simp add: login_records_def)
  from t login_records_deduplicated
  have sub: "subseq [[(''title'', JStr ''Check login'')], [(''title'', JStr ''Check logout'')]] login_records"
    by blast
  from t login_records_deduplicated
  have "\<forall>i j. i < j \<and> j < length [[(''title'', JStr ''Check login'')], [(''title'', JStr ''Check logout'')]] \<longrightarrow>
            jaccard (title_tokens ([[(''title'', JStr ''Check login'')], [(''title'', JStr ''Check logout'')]] ! i))
              (title_tokens ([[(''title'', JStr ''Check login'')], [(''title'', JStr ''Check logout'')]] ! j)) \<le> 8 / 10"
    by blast
  from this [rule_format, of 0 1]
  have pw: "jaccard (title_tokens [(''title'', JStr ''Check login'')])
              (title_tokens [(''title'', JStr ''Check logout'')]) \<le> 8 / 10"
    by simp
  have two: "remove_duplicate_scenarios (take 2 login_records) = Inr [[(''title'', JStr ''Check login'')]]"
    by (simp add: remove_duplicate_scenarios_def login_records_def dict_get_def keys_login
          similarity_login Let_def numeral_2_eq_2)
  show ?thesis using login_records_deduplicated sub pw two by simp
qed

section \<open>Properties of the validator\<close>

lemma letters_length:
  "length upper_chars = 26" "length lower_chars = 26"
  "length latin_upper_chars = 30" "length latin_lower_chars = 30"
  by (simp_all add: letter_defs)

lemma py_lower_nth:
  assumes "i < 56"
  shows "py_lower ((upper_chars @ latin_upper_chars) ! i) = (lower_chars @ latin_lower_chars) ! i"
proof -
  have d: "distinct (upper_chars @ latin_upper_chars)" using letters_distinct by auto
  have l: "length (upper_chars @ latin_upper_chars) = length (lower_chars @ latin_lower_chars)"
    by (simp add: letters_length)
  have i: "i < length (lower_chars @ latin_lower_chars)"
    using assms by (simp add: letters_length)
  have "map_of (zip (upper_chars @ latin_upper_chars) (lower_chars @ latin_lower_chars))
                     ((upper_chars @ latin_upper_chars) ! i)
                   = Some ((lower_chars @ latin_lower_chars) ! i)"
    by (rule map_of_zip_nth [OF l d i])
  then show ?thesis by (simp add: py_lower_def del: nth_append)
qed

lemma ascii_not_special:
  "c \<in> set (upper_chars @ lower_chars) \<Longrightarrow> c \<noteq> CHR 0xDF \<and> c \<noteq> CHR 0xB5 \<and> c \<noteq> CHR 0xFF"
  by (auto simp: upper_chars_def lower_chars_def)

lemma py_upper_nth:
  assumes "i < 26"
  shows "py_upper (lower_chars ! i) = Some [upper_chars ! i]"
proof -
  let ?c = "(lower_chars @ latin_lower_chars) ! i"
  have c: "?c = lower_chars ! i" using assms by (simp add: nth_append letters_length)
  have "lower_chars ! i \<in> set (upper_chars @ lower_chars)"
    using assms by (simp add: letters_length)
  then have ns: "lower_chars ! i \<noteq> CHR 0xDF \<and> lower_chars ! i \<noteq> CHR 0xB5 \<and> lower_chars ! i \<noteq> CHR 0xFF"
    by (rule ascii_not_special)
  have d: "distinct (lower_chars @ latin_lower_chars)" using letters_distinct by auto
  have l: "length (lower_chars @ latin_lower_chars) = length (upper_chars @ latin_upper_chars)"
    by (simp add: letters_length)
  have i: "i < length (upper_chars @ latin_upper_chars)"
    using assms by (simp add: letters_length)
  have "map_of (zip (lower_chars @ latin_lower_chars) (upper_chars @ latin_upper_chars)) ?c
                   = Some ((upper_chars @ latin_upper_chars) ! i)"
    by (rule map_of_zip_nth [OF l d i])
  moreover have "(upper_chars @ latin_upper_chars) ! i = upper_chars ! i"
    using assms by (simp add: nth_append letters_length)
  ultimately have "map_of (zip (lower_chars @ latin_lower_chars) (upper_chars @ latin_upper_chars))
                     (lower_chars ! i) = Some (upper_chars ! i)"
    using c by simp
  then show ?thesis using ns by (simp add: py_upper_def)
qed

lemma py_upper_capital_letter:
  assumes "c \<in> set upper_chars"
  shows "py_upper c = Some [c]"
proof -
  have "c \<notin> set (lower_chars @ latin_lower_chars)"
    using assms letters_distinct by auto
  then have "map_of (zip (lower_chars @ latin_lower_chars) (upper_chars @ latin_upper_chars)) c = None"
    by (auto simp: map_of_zip_is_None letters_length)
  moreover have "c \<noteq> CHR 0xDF \<and> c \<noteq> CHR 0xB5 \<and> c \<noteq> CHR 0xFF"
    using assms ascii_not_special [of c] by simp
  ultimately show ?thesis by (simp add: py_upper_def)
qed

lemma py_upper_small_letter:
  assumes "c \<in> set lower_chars"
  shows "\<exists>u. py_upper c = Some [u] \<and> u \<in> set upper_chars \<and> py_lower u = c"
proof -
  from assms obtain i where i: "i < 26" and c: "c = lower_chars ! i"
    by (auto simp: in_set_conv_nth letters_length)
  have "py_upper c = Some [upper_chars ! i]" using i c by (simp add: py_upper_nth)
  moreover have "upper_chars ! i \<in> set upper_chars" using i by (simp add: letters_length)
  moreover have "py_lower (upper_chars ! i) = c"
    using py_lower_nth [of i] i c by (simp add: nth_append letters_length)
  ultimately show ?thesis by blast
qed

lemma py_lower_ascii_source:
  assumes "py_lower c \<in> set lower_chars"
  shows "c \<in> set (upper_chars @ lower_chars)"
proof (cases "py_lower c = c")
  case True
  then show ?thesis using assms by simp
next
  case False
  then have "c \<in> set (upper_chars @ latin_upper_chars)"
    using py_lower_changes by blast
  then obtain i where i: "i < 56" and c: "c = (upper_chars @ latin_upper_chars) ! i"
    by (auto simp: in_set_conv_nth letters_length simp del: set_append nth_append)
  have l: "py_lower c = (lower_chars @ latin_lower_chars) ! i"
    using py_lower_nth [OF i] c by simp
  have "i < 26"
  proof (rule ccontr)
    assume "\<not> i < 26"
    then have "py_lower c = latin_lower_chars ! (i - 26)" and "i - 26 < length latin_lower_chars"
      using l i by (simp_all add: nth_append letters_length)
    then have "py_lower c \<in> set latin_lower_chars" by (metis nth_mem)
    then show False using assms letters_distinct by auto
  qed
  then have "c = upper_chars ! i" and "i < length upper_chars"
    using c by (simp_all add: nth_append letters_length)
  then have "c \<in> set upper_chars" by (metis nth_mem)
  then show ?thesis by simp
qed

lemma py_upper_capital:
  assumes "py_lower c \<in> set lower_chars"
  shows "\<exists>u. py_upper c = Some [u] \<and> u \<in> set upper_chars \<and> py_lower u = py_lower c"
proof -
  from py_lower_ascii_source [OF assms]
  consider "c \<in> set upper_chars" | "c \<in> set lower_chars" by auto
  then show ?thesis
  proof cases
    case 1
    then show ?thesis using py_upper_capital_letter by simp
  next
    case 2
    then have "py_lower c = c" using py_lower_small by simp
    then show ?thesis using py_upper_small_letter [OF 2] by auto
  qed
qed

lemma upper_not_enum: "c \<in> set upper_chars \<Longrightarrow> \<not> is_enum_char c"
  by (auto simp: upper_chars_def is_enum_char_def is_decimal_def isspace_def)

lemma set_str_strip: "set (str_strip s) \<subseteq> set s"
proof -
  have "set (dropWhile isspace (rev (dropWhile isspace s))) \<subseteq> set (rev (dropWhile isspace s))"
    by (rule set_dropWhileD [THEN subsetI])
  also have "\<dots> \<subseteq> set s"
    by (auto dest: set_dropWhileD)
  finally show ?thesis by (simp add: str_strip_def)
qed

lemma strip_title_markup_markers: "c \<in> set (strip_title_markup title) \<Longrightarrow> \<not> is_marker c"
proof -
  assume "c \<in> set (strip_title_markup title)"
  then have "c \<in> set (sub_leading_numbers (str_strip (sub_markers title)))"
    using set_str_strip by (auto simp: strip_title_markup_def)
  then have "c \<in> set (str_strip (sub_markers title))"
    by (auto simp: sub_leading_numbers_def dest: set_dropWhileD)
  then have "c \<in> set (sub_markers title)"
    using set_str_strip by blast
  then show ?thesis by (simp add: sub_markers_def)
qed

lemma verify_lower: "str_lower (''Verify '' @ s) = ''verify '' @ str_lower s"
  by (simp add: str_lower_def py_lower_def letter_defs)

lemma verify_markers: "c \<in> set ''Verify '' \<Longrightarrow> \<not> is_marker c"
  by (auto simp: is_marker_def)

lemma clean_title_cases:
  "clean_title title = strip_title_markup title
     \<and> (\<exists>word\<in>set action_words. startswith (str_lower (strip_title_markup title)) word)
   \<or> clean_title title = ''Verify '' @ str_lower (strip_title_markup title)
     \<and> \<not> (\<exists>word\<in>set action_words. startswith (str_lower (strip_title_markup title)) word)"
  unfolding clean_title_def Let_def by (rule if_split [THEN iffD2]) blast

lemma clean_title_markers:
  assumes "c \<in> set (clean_title title)"
  shows "\<not> is_marker c"
proof -
  from clean_title_cases [of title]
  consider (kept) "clean_title title = strip_title_markup title"
    | (verify) "clean_title title = ''Verify '' @ str_lower (strip_title_markup title)"
    by blast
  then show ?thesis
  proof cases
    case kept
    then show ?thesis using assms strip_title_markup_markers by simp
  next
    case verify
    then have "c \<in> set ''Verify '' \<or> c \<in> set (str_lower (strip_title_markup title))"
      using assms by (simp only: set_append Un_iff)
    then show ?thesis
    proof
      assume "c \<in> set ''Verify ''"
      then show ?thesis by (rule verify_markers)
    next
      assume "c \<in> set (str_lower (strip_title_markup title))"
      then obtain c' where "c' \<in> set (strip_title_markup title)" and "c = py_lower c'"
        by (auto simp: str_lower_def)
      then show ?thesis using strip_title_markup_markers [of c' title] by (simp add: is_marker_lower)
    qed
  qed
qed

lemma clean_title_action:
  "\<exists>word\<in>set action_words. startswith (str_lower (clean_title title)) word"
proof -
  from clean_title_cases [of title]
  consider (kept) "clean_title title = strip_title_markup title"
      "\<exists>word\<in>set action_words. startswith (str_lower (strip_title_markup title)) word"
    | (verify) "clean_title title = ''Verify '' @ str_lower (strip_title_markup title)"
    by blast
  then show ?thesis
  proof cases
    case kept
    then show ?thesis by simp
  next
    case verify
    then have "str_lower (clean_title title)
        = ''verify '' @ str_lower (str_lower (strip_title_markup title))"
      by (simp only: verify_lower)
    then have "startswith (str_lower (clean_title title)) ''verify''"
      by (simp add: startswith_def)
    moreover have "''verify'' \<in> set action_words" by (simp add: action_words_def)
    ultimately show ?thesis by blast
  qed
qed

lemma action_word_shape:
  "word \<in> set action_words \<Longrightarrow> word \<noteq> [] \<and> length word \<le> 100 \<and> hd word \<in> set lower_chars"
  by (auto simp: action_words_def lower_chars_def)

lemma prefix_take_keep:
  assumes "prefix w z" and "length w \<le> n"
  shows "prefix w (take n z)"
proof -
  from assms(1) obtain r where "z = w @ r" by (auto simp: prefix_def)
  then show ?thesis using assms(2) by simp
qed

text \<open>
  A string that starts with an ASCII letter when lower-cased is capitalised to itself with
  an ASCII capital in front.
\<close>

lemma capitalize_first_letter:
  assumes "prefix word (str_lower s)" and "word \<noteq> []" and "hd word \<in> set lower_chars"
  shows "\<exists>c cs u. s = c # cs \<and> capitalize_first s = Some (u # cs)
           \<and> u \<in> set upper_chars \<and> py_lower u = py_lower c"
proof -
  have "s \<noteq> []" using assms(1,2) by (auto simp: str_lower_def)
  then obtain c cs where cs: "s = c # cs" by (cases s) auto
  have "py_lower c = hd word"
    using assms(1,2) cs by (cases word) (auto simp: str_lower_def)
  then have "py_lower c \<in> set lower_chars" using assms(3) by simp
  from py_upper_capital [OF this]
  obtain u where u: "py_upper c = Some [u]" "u \<in> set upper_chars" "py_lower u = py_lower c"
    by blast
  have "capitalize_first s = Some (u # cs)" using cs u(1) by (simp add: capitalize_first_def)
  then show ?thesis using cs u by blast
qed

lemma capitalize_first_clean_title: "\<exists>full. capitalize_first (clean_title x) = Some full"
proof -
  obtain word where w: "word \<in> set action_words" and p: "prefix word (str_lower (clean_title x))"
    using clean_title_action [of x] by (auto simp: startswith_def)
  note sh = action_word_shape [OF w]
  from capitalize_first_letter [OF p] sh show ?thesis by blast
qed

lemma capitalize_first_quality_title:
  "\<exists>full. capitalize_first
             (if \<not> (\<exists>word\<in>set quality_action_words. startswith (str_lower (str_strip x)) word)
              then ''Verify '' @ str_lower (str_strip x)
              else str_strip x) = Some full"
proof (cases "\<exists>word\<in>set quality_action_words. startswith (str_lower (str_strip x)) word")
  case True
  then obtain word where w: "word \<in> set quality_action_words"
    and p: "prefix word (str_lower (str_strip x))"
    by (auto simp: startswith_def)
  have "word \<noteq> [] \<and> hd word \<in> set lower_chars"
    using w by (auto simp: quality_action_words_def lower_chars_def)
  with capitalize_first_letter [OF p] show ?thesis using True by auto
next
  case False
  have "prefix ''verify'' (str_lower (''Verify '' @ str_lower (str_strip x)))"
    by (simp only: verify_lower) simp
  moreover have "''verify'' \<noteq> [] \<and> hd ''verify'' \<in> set lower_chars"
    by (simp add: lower_chars_def)
  ultimately obtain full
    where "capitalize_first (''Verify '' @ str_lower (str_strip x)) = Some full"
    using capitalize_first_letter by blast
  then show ?thesis using False by simp
qed

text \<open>The title of an accepted record.\<close>

lemma final_title_shape:
  "\<exists>full. capitalize_first (clean_title x) = Some full
     \<and> (\<forall>c\<in>set (take 100 full). \<not> is_marker c)
     \<and> take 100 full \<noteq> []
     \<and> (\<exists>word\<in>set action_words. startswith (str_lower (take 100 full)) word)
     \<and> hd (take 100 full) \<in> set upper_chars
     \<and> \<not> is_enum_char (hd (take 100 full))
     \<and> length (take 100 full) \<le> 100"
proof -
  obtain word where w: "word \<in> set action_words" and p: "prefix word (str_lower (clean_title x))"
    using clean_title_action [of x] by (auto simp: startswith_def)
  note sh = action_word_shape [OF w]
  from capitalize_first_letter [OF p] sh
  obtain c cs u where cs: "clean_title x = c # cs"
    and y: "capitalize_first (clean_title x) = Some (u # cs)"
    and up: "u \<in> set upper_chars" and lo: "py_lower u = py_lower c"
    by blast
  let ?title = "take 100 (u # cs)"
  have "str_lower (u # cs) = str_lower (clean_title x)"
    using cs lo by (simp add: str_lower_def)
  then have py: "prefix word (str_lower (u # cs))" using p by simp
  have pt: "prefix word (str_lower ?title)"
    using prefix_take_keep [OF py, of 100] sh
    by (simp add: str_lower_def take_map)
  have hd_t: "hd ?title = u" and tne: "?title \<noteq> []"
    by simp_all
  have mk: "\<forall>a\<in>set ?title. \<not> is_marker a"
  proof
    fix a assume "a \<in> set ?title"
    then have "a \<in> set (u # cs)" by (rule in_set_takeD)
    then have "a = u \<or> a \<in> set (clean_title x)" using cs by auto
    then show "\<not> is_marker a"
      using up letters_not_marker [of u] clean_title_markers [of a x] by auto
  qed
  have "(\<forall>c\<in>set ?title. \<not> is_marker c)
     \<and> ?title \<noteq> []
     \<and> (\<exists>word\<in>set action_words. startswith (str_lower ?title) word)
     \<and> hd ?title \<in> set upper_chars
     \<and> \<not> is_enum_char (hd ?title)
     \<and> length ?title \<le> 100"
    using mk tne pt w up upper_not_enum [OF up] hd_t
    by (auto simp: startswith_def)
  then show ?thesis using y by blast
qed

text \<open>The four ways through the validator, on a dict.\<close>

lemma validate_title_not_text:
  assumes "\<forall>t. dict_get d ''title'' (JStr []) \<noteq> JStr t"
  shows "validate_and_clean_scenario (JObj d) = Inl AttributeError"
  using assms
  by (cases "dict_get d ''title'' (JStr [])") (simp_all add: validate_and_clean_scenario_def)

lemma validate_rejected:
  assumes "dict_get d ''title'' (JStr []) = JStr t"
    and "length (str_strip t) < 10 \<or> str_lower (str_strip t) \<in> set generic_titles"
  shows "validate_and_clean_scenario (JObj d) = Inr None"
  using assms by (auto simp: validate_and_clean_scenario_def Let_def)

lemma validate_description_not_text:
  assumes "dict_get d ''title'' (JStr []) = JStr t"
    and "10 \<le> length (str_strip t)" and "str_lower (str_strip t) \<notin> set generic_titles"
    and "\<forall>ds. dict_get d ''description'' (JStr []) \<noteq> JStr ds"
  shows "validate_and_clean_scenario (JObj d) = Inl AttributeError"
proof -
  have ne: "str_strip t \<noteq> []" using assms(2) by auto
  show ?thesis
    using assms ne
    by (cases "dict_get d ''description'' (JStr [])")
       (simp_all add: validate_and_clean_scenario_def Let_def)
qed

lemma validate_accepted_record:
  assumes "dict_get d ''title'' (JStr []) = JStr t"
    and "10 \<le> length (str_strip t)" and "str_lower (str_strip t) \<notin> set generic_titles"
    and "dict_get d ''description'' (JStr []) = JStr ds"
    and "capitalize_first (clean_title (str_strip t)) = Some full"
  shows "\<exists>description steps. steps \<noteq> []
      \<and> (dict_get d ''steps'' (JArr []) = JArr [] \<longrightarrow>
            steps = [''1. Set up test environment'', ''2. Execute the test scenario'',
                     ''3. Verify expected results''])
      \<and> validate_and_clean_scenario (JObj d) = Inr (Some
           [(''title'', JStr (take 100 full)),
            (''description'', JStr (take 200 description)),
            (''steps'', JArr (map JStr (take 5 steps))),
            (''severity'', dict_get d ''severity'' (JStr ''S3 - Moderate'')),
            (''priority'', dict_get d ''priority'' (JStr ''P3 - Medium'')),
            (''automation'', dict_get d ''automation'' (JStr ''Manual''))])"
proof -
  have ne: "str_strip t \<noteq> []" using assms(2) by auto
  let ?raw = "case dict_get d ''steps'' (JArr []) of
                JStr step \<Rightarrow> [JStr step]
              | JArr xs \<Rightarrow> xs
              | _ \<Rightarrow> [JStr ''1. Execute test steps'', JStr ''2. Verify expected results'']"
  let ?steps = "if clean_steps ?raw [] = []
                then [''1. Set up test environment'', ''2. Execute the test scenario'',
                      ''3. Verify expected results'']
                else clean_steps ?raw []"
  let ?title = full
  let ?description = "if str_strip (sub_markers (str_strip ds)) = []
                      then ''Test scenario for '' @ str_lower ?title
                      else str_strip (sub_markers (str_strip ds))"
  have "?steps \<noteq> []" by simp
  moreover have "dict_get d ''steps'' (JArr []) = JArr [] \<longrightarrow>
            ?steps = [''1. Set up test environment'', ''2. Execute the test scenario'',
                     ''3. Verify expected results'']"
    by simp
  moreover have "validate_and_clean_scenario (JObj d) = Inr (Some
           [(''title'', JStr (take 100 ?title)),
            (''description'', JStr (take 200 ?description)),
            (''steps'', JArr (map JStr (take 5 ?steps))),
            (''severity'', dict_get d ''severity'' (JStr ''S3 - Moderate'')),
            (''priority'', dict_get d ''priority'' (JStr ''P3 - Medium'')),
            (''automation'', dict_get d ''automation'' (JStr ''Manual''))])"
    using assms ne by (simp add: validate_and_clean_scenario_def Let_def)
  ultimately show ?thesis by blast
qed

lemma capitalize_verify: "capitalize_first (''Verify '' @ s) = Some (''Verify '' @ s)"
proof -
  have "CHR ''V'' \<in> set upper_chars" by (simp add: upper_chars_def)
  then have "py_upper CHR ''V'' = Some ''V''" by (rule py_upper_capital_letter)
  then show ?thesis by (simp add: capitalize_first_def)
qed

lemma final_title_cases:
  "(if \<exists>word\<in>set action_words. startswith (str_lower (strip_title_markup x)) word
    then capitalize_first (clean_title x) = capitalize_first (strip_title_markup x)
    else capitalize_first (clean_title x) = Some (''Verify '' @ str_lower (strip_title_markup x)))"
  using clean_title_cases [of x] by (auto simp only: capitalize_verify split: if_splits)

lemmas validator_defs =
  validate_and_clean_scenario_def dict_get_def clean_title_def strip_title_markup_def
  capitalize_first_def str_strip_def str_lower_def sub_markers_def sub_leading_numbers_def
  is_marker_def is_enum_char_def is_decimal_def isdigit_def isspace_def startswith_def
  py_lower_def py_upper_def letter_defs
  generic_titles_def action_words_def

lemma login_candidate_accepted:
  "validate_and_clean_scenario (JObj login_candidate)
     = Inr (Some
         [(''title'', JStr ''Verify login works  ok''),
          (''description'', JStr ''Test scenario for verify login works  ok''),
          (''steps'', JArr [JStr ''1. Set up test environment'',
                            JStr ''2. Execute the test scenario'',
                            JStr ''3. Verify expected results'']),
          (''severity'', JStr ''S3 - Moderate''),
          (''priority'', JStr ''P3 - Medium''),
          (''automation'', JStr ''Manual'')])"
  by (simp add: login_candidate_def validator_defs Let_def)

lemma blocker_candidate_accepted:
  "validate_and_clean_scenario (JObj blocker_candidate)
     = Inr (Some
         [(''title'', JStr ''Check the login page''),
          (''description'', JStr ''Test scenario for check the login page''),
          (''steps'', JArr [JStr ''1. Set up test environment'',
                            JStr ''2. Execute the test scenario'',
                            JStr ''3. Verify expected results'']),
          (''severity'', JStr ''Blocker''),
          (''priority'', JStr ''P3 - Medium''),
          (''automation'', JStr ''Manual'')])"
  by (simp add: blocker_candidate_def validator_defs Let_def)

text \<open>
  A title of nine characters between two no-break spaces (0xA0) is rejected as too short,
  and a title that begins with a capital E with acute accent (0xC9) is lower-cased to
  0xE9 behind \<^verbatim>\<open>Verify\<close>.
\<close>

lemma latin_candidates:
  "validate_and_clean_scenario (JObj [(''title'', JStr (CHR 0xA0 # ''Check it.'' @ [CHR 0xA0]))])
     = Inr None"
  "validate_and_clean_scenario (JObj [(''title'', JStr (CHR 0xC9 # ''mettre la facture client''))])
     = Inr (Some
         [(''title'', JStr (''Verify '' @ CHR 0xE9 # ''mettre la facture client'')),
          (''description'', JStr (''Test scenario for verify '' @ CHR 0xE9 # ''mettre la facture client'')),
          (''steps'', JArr [JStr ''1. Set up test environment'',
                            JStr ''2. Execute the test scenario'',
                            JStr ''3. Verify expected results'']),
          (''severity'', JStr ''S3 - Moderate''),
          (''priority'', JStr ''P3 - Medium''),
          (''automation'', JStr ''Manual'')])"
  by (simp_all add: validator_defs Let_def)

lemma validate_accepted_levels:
  assumes "validate_and_clean_scenario (JObj d) = Inr (Some r)"
  shows "map_of r ''severity'' = Some (dict_get d ''severity'' (JStr ''S3 - Moderate''))
       \<and> map_of r ''priority'' = Some (dict_get d ''priority'' (JStr ''P3 - Medium''))
       \<and> map_of r ''automation'' = Some (dict_get d ''automation'' (JStr ''Manual''))"
proof (cases "\<exists>t. dict_get d ''title'' (JStr []) = JStr t")
  case False
  then show ?thesis using validate_title_not_text [of d] assms by simp
next
  case True
  then obtain t where g: "dict_get d ''title'' (JStr []) = JStr t" by blast
  show ?thesis
  proof (cases "length (str_strip t) < 10 \<or> str_lower (str_strip t) \<in> set generic_titles")
    case True
    then show ?thesis using validate_rejected [OF g] assms by simp
  next
    case False
    then have long: "10 \<le> length (str_strip t)"
      and ng: "str_lower (str_strip t) \<notin> set generic_titles"
      by simp_all
    show ?thesis
    proof (cases "\<exists>ds. dict_get d ''description'' (JStr []) = JStr ds")
      case False
      then show ?thesis using validate_description_not_text [OF g long ng] assms by simp
    next
      case True
      then obtain ds where ds: "dict_get d ''description'' (JStr []) = JStr ds" by blast
      obtain full where "capitalize_first (clean_title (str_strip t)) = Some full"
        using capitalize_first_clean_title by blast
      from validate_accepted_record [OF g long ng ds this] assms
      show ?thesis by auto
    qed
  qed
qed

text \<open>
  C4. On a dict, the validator returns \<^verbatim>\<open>None\<close> exactly when the title is missing, or
  is a string that, stripped of surrounding whitespace, has fewer than 10 characters or
  is, in lower case, one of the generic titles. (A title or a description that is not a
  string raises \<^verbatim>\<open>AttributeError\<close>, which is neither.) A record it returns has a title
  without asterisk, plus or hyphen, that does not begin with a digit, a dot or whitespace,
  that begins with one of the action words when lower-cased and with an ASCII capital, and
  that is the cleaned title itself, capitalised, or \<^verbatim>\<open>Verify\<close> followed by the cleaned
  title in lower case, cut to 100 characters; its description has at most 200 characters;
  its steps are between one and five, and are the three-step skeleton when the candidate
  has no steps or an empty list of them.
\<close>

theorem validate_and_clean_scenario_contract:
  "(validate_and_clean_scenario (JObj d) = Inr None \<longleftrightarrow>
      (case map_of d ''title'' of
         None \<Rightarrow> True
       | Some (JStr t) \<Rightarrow>
           length (str_strip t) < 10 \<or> str_lower (str_strip t) \<in> set generic_titles
       | Some _ \<Rightarrow> False))
   \<and> (validate_and_clean_scenario (JObj d) = Inr (Some r) \<longrightarrow>
        (\<exists>t title description steps.
            map_of d ''title'' = Some (JStr t)
          \<and> map_of r ''title'' = Some (JStr title)
          \<and> map_of r ''description'' = Some (JStr description)
          \<and> map_of r ''steps'' = Some (JArr (map JStr steps))
          \<and> (\<forall>c\<in>set title. \<not> is_marker c)
          \<and> title \<noteq> [] \<and> \<not> is_enum_char (hd title)
          \<and> (\<exists>word\<in>set action_words. startswith (str_lower title) word)
          \<and> (if \<exists>word\<in>set action_words.
                    startswith (str_lower (strip_title_markup (str_strip t))) word
              then \<exists>full. capitalize_first (strip_title_markup (str_strip t)) = Some full
                      \<and> title = take 100 full
              else title = take 100 (''Verify '' @ str_lower (strip_title_markup (str_strip t))))
          \<and> hd title \<in> set upper_chars
          \<and> length title \<le> 100 \<and> length description \<le> 200
          \<and> steps \<noteq> [] \<and> length steps \<le> 5
          \<and> (map_of d ''steps'' = None \<or> map_of d ''steps'' = Some (JArr []) \<longrightarrow>
                steps = [''1. Set up test environment'', ''2. Execute the test scenario'',
                         ''3. Verify expected results''])))"
proof -
  let ?v = "validate_and_clean_scenario (JObj d)"
  consider (missing) "map_of d ''title'' = None"
    | (str) t where "map_of d ''title'' = Some (JStr t)"
    | (other) v where "map_of d ''title'' = Some v" and "\<forall>t. v \<noteq> JStr t"
    by (cases "map_of d ''title''") auto
  then show ?thesis
  proof cases
    case missing
    then have "dict_get d ''title'' (JStr []) = JStr []" by (simp add: dict_get_def)
    then have "?v = Inr None"
      by (rule validate_rejected) (simp add: str_strip_def)
    then show ?thesis using missing by simp
  next
    case other
    then have "\<forall>t. dict_get d ''title'' (JStr []) \<noteq> JStr t" by (simp add: dict_get_def)
    then have "?v = Inl AttributeError" by (rule validate_title_not_text)
    then show ?thesis using other by (cases v) simp_all
  next
    case str
    then have g: "dict_get d ''title'' (JStr []) = JStr t" by (simp add: dict_get_def)
    show ?thesis
    proof (cases "length (str_strip t) < 10 \<or> str_lower (str_strip t) \<in> set generic_titles")
      case True
      then have "?v = Inr None" using g by (intro validate_rejected)
      then show ?thesis using str True by simp
    next
      case False
      note notshort = False
      then have long: "10 \<le> length (str_strip t)"
        and ng: "str_lower (str_strip t) \<notin> set generic_titles"
        by simp_all
      show ?thesis
      proof (cases "\<exists>ds. dict_get d ''description'' (JStr []) = JStr ds")
        case False
        then have "?v = Inl AttributeError"
          using validate_description_not_text [OF g long ng] by blast
        then show ?thesis using str notshort by simp
      next
        case True
        then obtain ds where ds: "dict_get d ''description'' (JStr []) = JStr ds" by blast
        from final_title_shape [of "str_strip t"]
        obtain full where cf: "capitalize_first (clean_title (str_strip t)) = Some full"
          and shape: "(\<forall>c\<in>set (take 100 full). \<not> is_marker c)
             \<and> take 100 full \<noteq> []
             \<and> (\<exists>word\<in>set action_words. startswith (str_lower (take 100 full)) word)
             \<and> hd (take 100 full) \<in> set upper_chars
             \<and> \<not> is_enum_char (hd (take 100 full))
             \<and> length (take 100 full) \<le> 100"
          by blast
        from validate_accepted_record [OF g long ng ds cf]
        obtain description steps where st: "steps \<noteq> []"
          and sk: "dict_get d ''steps'' (JArr []) = JArr [] \<longrightarrow>
            steps = [''1. Set up test environment'', ''2. Execute the test scenario'',
                     ''3. Verify expected results'']"
          and v: "?v = Inr (Some
           [(''title'', JStr (take 100 full)),
            (''description'', JStr (take 200 description)),
            (''steps'', JArr (map JStr (take 5 steps))),
            (''severity'', dict_get d ''severity'' (JStr ''S3 - Moderate'')),
            (''priority'', dict_get d ''priority'' (JStr ''P3 - Medium'')),
            (''automation'', dict_get d ''automation'' (JStr ''Manual''))])"
          by blast
        let ?title = "take 100 full"
        have cases_t:
          "(if \<exists>word\<in>set action_words.
                    startswith (str_lower (strip_title_markup (str_strip t))) word
              then \<exists>full. capitalize_first (strip_title_markup (str_strip t)) = Some full
                      \<and> ?title = take 100 full
              else ?title = take 100 (''Verify '' @ str_lower (strip_title_markup (str_strip t))))"
          using final_title_cases [of "str_strip t"] cf by (auto split: if_splits)
        have none: "?v \<noteq> Inr None" using v by simp
        have acc: "\<exists>t title description steps.
            map_of d ''title'' = Some (JStr t)
          \<and> map_of r ''title'' = Some (JStr title)
          \<and> map_of r ''description'' = Some (JStr description)
          \<and> map_of r ''steps'' = Some (JArr (map JStr steps))
          \<and> (\<forall>c\<in>set title. \<not> is_marker c)
          \<and> title \<noteq> [] \<and> \<not> is_enum_char (hd title)
          \<and> (\<exists>word\<in>set action_words. startswith (str_lower title) word)
          \<and> (if \<exists>word\<in>set action_words.
                    startswith (str_lower (strip_title_markup (str_strip t))) word
              then \<exists>full. capitalize_first (strip_title_markup (str_strip t)) = Some full
                      \<and> title = take 100 full
              else title = take 100 (''Verify '' @ str_lower (strip_title_markup (str_strip t))))
          \<and> hd title \<in> set upper_chars
          \<and> length title \<le> 100 \<and> length description \<le> 200
          \<and> steps \<noteq> [] \<and> length steps \<le> 5
          \<and> (map_of d ''steps'' = None \<or> map_of d ''steps'' = Some (JArr []) \<longrightarrow>
                steps = [''1. Set up test environment'', ''2. Execute the test scenario'',
                         ''3. Verify expected results''])"
          if r: "?v = Inr (Some r)"
        proof -
          have rr: "r = [(''title'', JStr ?title),
            (''description'', JStr (take 200 description)),
            (''steps'', JArr (map JStr (take 5 steps))),
            (''severity'', dict_get d ''severity'' (JStr ''S3 - Moderate'')),
            (''priority'', dict_get d ''priority'' (JStr ''P3 - Medium'')),
            (''automation'', dict_get d ''automation'' (JStr ''Manual''))]"
            using r v by simp
          have m1: "map_of r ''title'' = Some (JStr ?title)" by (simp add: rr)
          have m2: "map_of r ''description'' = Some (JStr (take 200 description))" by (simp add: rr)
          have m3: "map_of r ''steps'' = Some (JArr (map JStr (take 5 steps)))" by (simp add: rr)
          have s5: "take 5 steps \<noteq> [] \<and> length (take 5 steps) \<le> 5" using st by simp
          have s3: "map_of d ''steps'' = None \<or> map_of d ''steps'' = Some (JArr []) \<longrightarrow>
                take 5 steps = [''1. Set up test environment'', ''2. Execute the test scenario'',
                         ''3. Verify expected results'']"
            using sk by (auto simp: dict_get_def)
          have d2: "length (take 200 description) \<le> 200" by simp
          show ?thesis
            apply (rule exI [of _ t])
            apply (rule exI [of _ ?title])
            apply (rule exI [of _ "take 200 description"])
            apply (rule exI [of _ "take 5 steps"])
            using str m1 m2 m3 s5 s3 d2 shape cases_t apply blast
            done
        qed
        show ?thesis using none acc str notshort by simp
      qed
    qed
  qed
qed

theorem validate_and_clean_scenario_contract_witness:
  "validate_and_clean_scenario (JObj [(''title'', JStr '' Login '')]) = Inr None
   \<and> validate_and_clean_scenario (JObj login_candidate)
       = Inr (Some
           [(''title'', JStr ''Verify login works  ok''),
            (''description'', JStr ''Test scenario for verify login works  ok''),
            (''steps'', JArr [JStr ''1. Set up test environment'',
                              JStr ''2. Execute the test scenario'',
                              JStr ''3. Verify expected results'']),
            (''severity'', JStr ''S3 - Moderate''),
            (''priority'', JStr ''P3 - Medium''),
            (''automation'', JStr ''Manual'')])
   \<and> hd ''Verify login works  ok'' \<in> set upper_chars
   \<and> (\<exists>word\<in>set action_words. startswith (str_lower ''Verify login works  ok'') word)"
proof -
  have short: "length (str_strip '' Login '') < 10"
    by (simp add: str_strip_def isspace_def)
  from validate_and_clean_scenario_contract [of "[(''title'', JStr '' Login '')]"] short
  have none: "validate_and_clean_scenario (JObj [(''title'', JStr '' Login '')]) = Inr None"
    by simp
  from validate_and_clean_scenario_contract
         [of login_candidate
             "[(''title'', JStr ''Verify login works  ok''),
               (''description'', JStr ''Test scenario for verify login works  ok''),
               (''steps'', JArr [JStr ''1. Set up test environment'',
                                 JStr ''2. Execute the test scenario'',
                                 JStr ''3. Verify expected results'']),
               (''severity'', JStr ''S3 - Moderate''),
               (''priority'', JStr ''P3 - Medium''),
               (''automation'', JStr ''Manual'')]"]
       login_candidate_accepted
  have "hd ''Verify login works  ok'' \<in> set upper_chars
      \<and> (\<exists>word\<in>set action_words. startswith (str_lower ''Verify login works  ok'') word)"
    by auto
  then show ?thesis using none login_candidate_accepted by simp
qed

text \<open>
  C5, as the specification states it, fails: a severity that is present and is not one of
  the four levels is returned as it is.
\<close>

theorem validate_keeps_unrecognized_severity:
  "validate_and_clean_scenario
     (JObj [(''title'', JStr ''Check the login page''), (''severity'', JStr ''Blocker'')])
     = Inr (Some
         [(''title'', JStr ''Check the login page''),
          (''description'', JStr ''Test scenario for check the login page''),
          (''steps'', JArr [JStr ''1. Set up test environment'',
                            JStr ''2. Execute the test scenario'',
                            JStr ''3. Verify expected results'']),
          (''severity'', JStr ''Blocker''),
          (''priority'', JStr ''P3 - Medium''),
          (''automation'', JStr ''Manual'')])
   \<and> ''Blocker'' \<notin> set (map fst severity_order)"
  using blocker_candidate_accepted
  by (simp add: blocker_candidate_def severity_order_def)

text \<open>
  C5, amended. In a record the validator returns, each of \<^verbatim>\<open>severity\<close>,
  \<^verbatim>\<open>priority\<close> and \<^verbatim>\<open>automation\<close> is the candidate's own value where the candidate
  has the key, whatever the value, and the default (\<^verbatim>\<open>S3 - Moderate\<close>,
  \<^verbatim>\<open>P3 - Medium\<close>, \<^verbatim>\<open>Manual\<close>) where the key is absent.
\<close>

theorem validate_levels_from_candidate:
  "validate_and_clean_scenario (JObj d) = Inr (Some r) \<longrightarrow>
     map_of r ''severity''
       = Some (case map_of d ''severity'' of None \<Rightarrow> JStr ''S3 - Moderate'' | Some v \<Rightarrow> v)
   \<and> map_of r ''priority''
       = Some (case map_of d ''priority'' of None \<Rightarrow> JStr ''P3 - Medium'' | Some v \<Rightarrow> v)
   \<and> map_of r ''automation''
       = Some (case map_of d ''automation'' of None \<Rightarrow> JStr ''Manual'' | Some v \<Rightarrow> v)"
  using validate_accepted_levels [of d r] by (simp add: dict_get_def)

theorem validate_levels_from_candidate_witness:
  "validate_and_clean_scenario (JObj blocker_candidate)
     = Inr (Some
         [(''title'', JStr ''Check the login page''),
          (''description'', JStr ''Test scenario for check the login page''),
          (''steps'', JArr [JStr ''1. Set up test environment'',
                            JStr ''2. Execute the test scenario'',
                            JStr ''3. Verify expected results'']),
          (''severity'', JStr ''Blocker''),
          (''priority'', JStr ''P3 - Medium''),
          (''automation'', JStr ''Manual'')])
   \<and> map_of blocker_candidate ''severity'' = Some (JStr ''Blocker'')
   \<and> map_of blocker_candidate ''priority'' = None"
  using validate_levels_from_candidate
          [of blocker_candidate
              "[(''title'', JStr ''Check the login page''),
                (''description'', JStr ''Test scenario for check the login page''),
                (''steps'', JArr [JStr ''1. Set up test environment'',
                                  JStr ''2. Execute the test scenario'',
                                  JStr ''3. Verify expected results'']),
                (''severity'', JStr ''Blocker''),
                (''priority'', JStr ''P3 - Medium''),
                (''automation'', JStr ''Manual'')]"]
        blocker_candidate_accepted
  by (simp add: blocker_candidate_def)

section \<open>Properties of the parse cascade\<close>

declare fill_scenarios.simps [simp del]

lemma improved_parse_scenarios_returns:
  "improved_parse_scenarios lib text
     = Inr (case parse_attempt lib text of
              Inl e \<Rightarrow> improved_text_to_scenarios text
            | Inr scenarios \<Rightarrow> scenarios)"
  by (simp add: improved_parse_scenarios_def split: sum.splits)

lemma parse_attempt_direct:
  "json_loads lib text = Inr (JArr (x # xs)) \<Longrightarrow>
   parse_attempt lib text = clean_scenarios (x # xs) []"
  by (simp add: parse_attempt_def)

lemma decode_yields_nothing_cases:
  assumes "decode_yields_nothing lib text"
  obtains (error) "json_loads lib text = Inl JSONDecodeError"
    | (other) v where "json_loads lib text = Inr v" and "\<forall>x xs. v \<noteq> JArr (x # xs)"
proof (cases "json_loads lib text")
  case (Inl e)
  then have "e = JSONDecodeError" using assms by (simp add: decode_yields_nothing_def)
  then show ?thesis using Inl error by simp
next
  case (Inr v)
  then have "\<forall>x xs. v \<noteq> JArr (x # xs)"
    using assms by (auto simp: decode_yields_nothing_def)
  then show ?thesis using Inr other by simp
qed

lemma not_list_case:
  assumes "\<forall>x xs. v \<noteq> JArr (x # xs)"
  shows "(case v of JArr [] \<Rightarrow> b | JArr (x # xs) \<Rightarrow> a x xs | _ \<Rightarrow> b) = b"
  using assms by (cases v) (auto split: list.splits)

lemma parse_attempt_skips_direct:
  assumes "decode_yields_nothing lib text"
  shows "parse_attempt lib text = bracket_stages lib text"
  using assms
proof (cases rule: decode_yields_nothing_cases)
  case error
  then show ?thesis by (simp add: parse_attempt_def)
next
  case (other v)
  show ?thesis
    unfolding parse_attempt_def other(1) sum.case
    using other(2) by (cases v) (simp_all split: list.splits)
qed

lemma bracket_stages_decoded:
  assumes "re_search lib Json_Array (clean_response_text lib text) = Some m"
    and "json_loads lib m = Inr (JArr (x # xs))"
  shows "bracket_stages lib text = clean_scenarios (x # xs) []"
  using assms by (simp add: bracket_stages_def Let_def)

lemma bracket_stages_repaired:
  assumes "re_search lib Json_Array (clean_response_text lib text) = Some m"
    and "json_loads lib m = Inl JSONDecodeError"
    and "fix_malformed_json lib m = Some f" and "f \<noteq> []"
    and "json_loads lib f = Inr (JArr (x # xs))"
  shows "bracket_stages lib text = clean_scenarios (x # xs) []"
  using assms by (simp add: bracket_stages_def Let_def)

lemma bracket_stages_skipped:
  assumes "bracket_yields_nothing lib text"
  shows "bracket_stages lib text = extract_or_text lib text"
proof (cases "re_search lib Json_Array (clean_response_text lib text)")
  case None
  then show ?thesis by (simp add: bracket_stages_def Let_def)
next
  case (Some m)
  have b: "bracket_stages lib text =
      (case json_loads lib m of
                Inr (JArr (x # xs)) \<Rightarrow> clean_scenarios (x # xs) []
              | Inr _ \<Rightarrow> extract_or_text lib text
              | Inl JSONDecodeError \<Rightarrow>
                  (case fix_malformed_json lib m of
                     None \<Rightarrow> extract_or_text lib text
                   | Some fixed_json \<Rightarrow>
                       (if fixed_json \<noteq> []
                        then (case json_loads lib fixed_json of
                                Inr (JArr (x # xs)) \<Rightarrow> clean_scenarios (x # xs) []
                              | Inr _ \<Rightarrow> extract_or_text lib text
                              | Inl JSONDecodeError \<Rightarrow> extract_or_text lib text
                              | Inl e \<Rightarrow> Inl e)
                        else extract_or_text lib text))
              | Inl e \<Rightarrow> Inl e)"
    by (simp add: bracket_stages_def Let_def Some)
  have y: "(case json_loads lib m of
             Inr (JArr (x # xs)) \<Rightarrow> False
           | Inr _ \<Rightarrow> True
           | Inl e \<Rightarrow>
               e = JSONDecodeError \<and>
               (case fix_malformed_json lib m of
                  None \<Rightarrow> True
                | Some fixed_json \<Rightarrow> fixed_json = [] \<or> decode_yields_nothing lib fixed_json))"
    using assms by (simp add: bracket_yields_nothing_def Some)
  show ?thesis
  proof (cases "json_loads lib m")
    case (Inr v)
    show ?thesis
      unfolding b Inr sum.case
      using y unfolding Inr sum.case
      by (cases v) (simp_all split: list.splits)
  next
    case (Inl e)
    then have e: "e = JSONDecodeError"
      and f: "(case fix_malformed_json lib m of
                  None \<Rightarrow> True
                | Some fixed_json \<Rightarrow> fixed_json = [] \<or> decode_yields_nothing lib fixed_json)"
      using y by simp_all
    show ?thesis
    proof (cases "fix_malformed_json lib m")
      case None
      then show ?thesis unfolding b Inl e by simp
    next
      case (Some fixed)
      show ?thesis
      proof (cases "fixed = []")
        case True
        then show ?thesis unfolding b Inl e Some by simp
      next
        case False
        then have "decode_yields_nothing lib fixed" using f Some by simp
        then show ?thesis
        proof (cases rule: decode_yields_nothing_cases)
          case error
          then show ?thesis unfolding b Inl e Some using False by simp
        next
          case (other v)
          have "(case json_loads lib fixed of
                                Inr (JArr (x # xs)) \<Rightarrow> clean_scenarios (x # xs) []
                              | Inr _ \<Rightarrow> extract_or_text lib text
                              | Inl JSONDecodeError \<Rightarrow> extract_or_text lib text
                              | Inl e \<Rightarrow> Inl e) = extract_or_text lib text"
            unfolding other(1) sum.case
            using other(2) by (cases v) (simp_all split: list.splits)
          then show ?thesis unfolding b Inl e Some using False by simp
        qed
      qed
    qed
  qed
qed

lemma length_fill_scenarios: "length (fill_scenarios scenarios) = max 6 (length scenarios)"
proof (induction scenarios rule: fill_scenarios.induct)
  case (1 scenarios)
  show ?case
  proof (cases "length scenarios < 6")
    case True
    then show ?thesis using "1.IH" by (subst fill_scenarios.simps) simp
  next
    case False
    then show ?thesis by (subst fill_scenarios.simps) simp
  qed
qed

lemma extract_or_text_found:
  "extract_json_like_scenarios lib text = Some (s # ss) \<Longrightarrow>
   extract_or_text lib text = Inr (s # ss)"
  by (simp add: extract_or_text_def)

lemma extract_or_text_fallback:
  "extract_json_like_scenarios lib text \<in> {None, Some []} \<Longrightarrow>
   extract_or_text lib text = Inr (improved_text_to_scenarios text)"
  by (auto simp: extract_or_text_def)

lemma returns_validated:
  "parse_attempt lib text = clean_scenarios scenarios [] \<Longrightarrow>
   improved_parse_scenarios lib text
     = Inr (validated_or (improved_text_to_scenarios text) scenarios)"
  by (simp add: improved_parse_scenarios_returns validated_or_def split: sum.splits)

lemma offline_nothing:
  "decode_yields_nothing offline_lib []" "bracket_yields_nothing offline_lib []"
  "extract_json_like_scenarios offline_lib [] = None"
  by (simp_all add: decode_yields_nothing_def bracket_yields_nothing_def offline_lib_def
        extract_json_like_scenarios_def)

text \<open>
  C2. For every text and every behaviour of \<^verbatim>\<open>json.loads\<close> and of the regular
  expressions, the cascade returns a list. The stages come in order: a directly decoded
  non-empty list decides the result; otherwise the decoded bracketed substring does;
  otherwise, when that decoding raised \<^verbatim>\<open>JSONDecodeError\<close>, the decoded repaired
  substring; otherwise the objects extracted one by one, when there are any; otherwise
  the text fallback. An exception anywhere in the stages also ends in the text fallback,
  which always has at least six scenarios.
\<close>

theorem improved_parse_scenarios_cascade:
  "(\<exists>scenarios. improved_parse_scenarios lib text = Inr scenarios)
   \<and> (json_loads lib text = Inr (JArr (x # xs)) \<longrightarrow>
        improved_parse_scenarios lib text
          = Inr (validated_or (improved_text_to_scenarios text) (x # xs)))
   \<and> (decode_yields_nothing lib text
        \<and> re_search lib Json_Array (clean_response_text lib text) = Some m
        \<and> json_loads lib m = Inr (JArr (y # ys)) \<longrightarrow>
        improved_parse_scenarios lib text
          = Inr (validated_or (improved_text_to_scenarios text) (y # ys)))
   \<and> (decode_yields_nothing lib text
        \<and> re_search lib Json_Array (clean_response_text lib text) = Some m
        \<and> json_loads lib m = Inl JSONDecodeError
        \<and> fix_malformed_json lib m = Some f \<and> f \<noteq> []
        \<and> json_loads lib f = Inr (JArr (z # zs)) \<longrightarrow>
        improved_parse_scenarios lib text
          = Inr (validated_or (improved_text_to_scenarios text) (z # zs)))
   \<and> (decode_yields_nothing lib text \<and> bracket_yields_nothing lib text
        \<and> extract_json_like_scenarios lib text = Some (s # ss) \<longrightarrow>
        improved_parse_scenarios lib text = Inr (s # ss))
   \<and> (decode_yields_nothing lib text \<and> bracket_yields_nothing lib text
        \<and> extract_json_like_scenarios lib text \<in> {None, Some []} \<longrightarrow>
        improved_parse_scenarios lib text = Inr (improved_text_to_scenarios text))
   \<and> (parse_attempt lib text = Inl e \<longrightarrow>
        improved_parse_scenarios lib text = Inr (improved_text_to_scenarios text))
   \<and> 6 \<le> length (improved_text_to_scenarios text)"
proof (intro conjI impI)
  show "\<exists>scenarios. improved_parse_scenarios lib text = Inr scenarios"
    by (simp add: improved_parse_scenarios_returns)
next
  assume "json_loads lib text = Inr (JArr (x # xs))"
  then show "improved_parse_scenarios lib text
          = Inr (validated_or (improved_text_to_scenarios text) (x # xs))"
    by (intro returns_validated parse_attempt_direct)
next
  assume a: "decode_yields_nothing lib text
        \<and> re_search lib Json_Array (clean_response_text lib text) = Some m
        \<and> json_loads lib m = Inr (JArr (y # ys))"
  then have "parse_attempt lib text = clean_scenarios (y # ys) []"
    by (simp add: parse_attempt_skips_direct bracket_stages_decoded)
  then show "improved_parse_scenarios lib text
          = Inr (validated_or (improved_text_to_scenarios text) (y # ys))"
    by (rule returns_validated)
next
  assume a: "decode_yields_nothing lib text
        \<and> re_search lib Json_Array (clean_response_text lib text) = Some m
        \<and> json_loads lib m = Inl JSONDecodeError
        \<and> fix_malformed_json lib m = Some f \<and> f \<noteq> []
        \<and> json_loads lib f = Inr (JArr (z # zs))"
  then have "bracket_stages lib text = clean_scenarios (z # zs) []"
    by (intro bracket_stages_repaired [of lib "text" m f]) simp_all
  then have "parse_attempt lib text = clean_scenarios (z # zs) []"
    using a by (simp add: parse_attempt_skips_direct)
  then show "improved_parse_scenarios lib text
          = Inr (validated_or (improved_text_to_scenarios text) (z # zs))"
    by (rule returns_validated)
next
  assume a: "decode_yields_nothing lib text \<and> bracket_yields_nothing lib text
        \<and> extract_json_like_scenarios lib text = Some (s # ss)"
  then have "parse_attempt lib text = Inr (s # ss)"
    by (simp add: parse_attempt_skips_direct bracket_stages_skipped extract_or_text_found)
  then show "improved_parse_scenarios lib text = Inr (s # ss)"
    by (simp add: improved_parse_scenarios_returns)
next
  assume a: "decode_yields_nothing lib text \<and> bracket_yields_nothing lib text
        \<and> extract_json_like_scenarios lib text \<in> {None, Some []}"
  then have "parse_attempt lib text = Inr (improved_text_to_scenarios text)"
    using extract_or_text_fallback [of lib "text"]
    by (simp add: parse_attempt_skips_direct bracket_stages_skipped)
  then show "improved_parse_scenarios lib text = Inr (improved_text_to_scenarios text)"
    by (simp add: improved_parse_scenarios_returns)
next
  assume "parse_attempt lib text = Inl e"
  then show "improved_parse_scenarios lib text = Inr (improved_text_to_scenarios text)"
    by (simp add: improved_parse_scenarios_returns)
next
  show "6 \<le> length (improved_text_to_scenarios text)"
    by (simp add: improved_text_to_scenarios_def length_fill_scenarios)
qed

theorem improved_parse_scenarios_cascade_witness:
  "improved_parse_scenarios offline_lib [] = Inr (improved_text_to_scenarios [])
   \<and> 6 \<le> length (improved_text_to_scenarios [])
   \<and> improved_parse_scenarios
        (offline_lib\<lparr>json_loads :=
           (\<lambda>text. if text = ''[1]'' then Inr (JArr [JNum 1]) else Inl JSONDecodeError)\<rparr>)
        ''[1]'' = Inr []"
proof -
  let ?lib1 = "offline_lib\<lparr>json_loads :=
           (\<lambda>text. if text = ''[1]'' then Inr (JArr [JNum 1]) else Inl JSONDecodeError)\<rparr>"
  have d: "json_loads ?lib1 ''[1]'' = Inr (JArr [JNum 1])" by simp
  have v: "validated_or (improved_text_to_scenarios ''[1]'') [JNum 1] = []"
    by (simp add: validated_or_def validate_and_clean_scenario_def)
  from improved_parse_scenarios_cascade [of offline_lib "[]"] offline_nothing
  have a: "improved_parse_scenarios offline_lib [] = Inr (improved_text_to_scenarios [])
      \<and> 6 \<le> length (improved_text_to_scenarios [])"
    by simp
  from improved_parse_scenarios_cascade
         [of ?lib1 "''[1]''" "JNum 1" "[]"] d v
  have b: "improved_parse_scenarios ?lib1 ''[1]'' = Inr []"
    by simp
  from a b show ?thesis by simp
qed
end
